theory Spec2Isabelle
  imports Complex_Main "HOL-Library.Sublist"
begin

section \<open>Meeting Buddy Pro: the job pipeline and the export reconciliation\<close>

text \<open>
  A shallow embedding of \<^verbatim>\<open>backend/storage.js\<close> (the SQLite store),
  \<^verbatim>\<open>backend/diarization.js\<close> (the launcher of the analysis process) and
  \<^verbatim>\<open>backend/server.js\<close> (the routes, the job handler and the export rewriters).

  Conventions. A JavaScript string is a \<^typ>\<open>string\<close>: each \<^typ>\<open>char\<close> stands for one
  UTF-16 code unit below 256, so the model covers texts in the Latin-1 range. A thrown
  exception is the \<open>Inl\<close> of a sum. The clock (\<open>new Date().toISOString()\<close>) and the
  identifiers drawn by \<open>randomUUID()\<close> are inputs of the functions that read them.
  Tables are lists of rows in insertion order.
\<close>

subsection \<open>Rows, tables and errors\<close>

type_synonym ident = string
type_synonym timestamp = string

record meeting_row =
  m_id :: ident
  m_name :: string
  m_status :: string
  m_created_at :: timestamp
  m_started_at :: "timestamp option"
  m_ended_at :: "timestamp option"
  m_audio_file_path :: "string option"

record speaker_row =
  s_id :: ident
  s_meeting_id :: ident
  s_label :: string
  s_display_name :: string
  s_created_at :: timestamp

record segment_row =
  g_id :: ident
  g_meeting_id :: ident
  g_speaker_id :: "ident option"
  g_start_ms :: int
  g_end_ms :: int
  g_transcript :: string
  g_created_at :: timestamp

record db =
  meetings :: "meeting_row list"
  speakers :: "speaker_row list"
  segments :: "segment_row list"

text \<open>
  The exceptions of the pipeline. \<open>AudioNotFound\<close>, \<open>LaunchFailure\<close>, \<open>ProcessFailure\<close>
  (with the message of the rejected promise) and \<open>PayloadMissing\<close> are the errors the
  launcher and the job handler raise themselves; \<open>SyntaxError\<close> is what \<open>JSON.parse\<close>
  throws, \<open>TypeError\<close> a property read on \<open>null\<close> or a value the SQLite driver cannot
  bind, \<open>PersistenceError\<close> a constraint the store rejects (primary key, foreign key,
  \<open>NOT NULL\<close>), \<open>MeetingNotFound\<close> the error \<open>addSpeaker\<close> throws.
\<close>

datatype error =
    AudioNotFound
  | LaunchFailure
  | ProcessFailure string
  | PayloadMissing
  | SyntaxError
  | TypeError
  | PersistenceError
  | MeetingNotFound

subsection \<open>Reading meetings\<close>

text \<open>\<open>SELECT ... FROM meetings WHERE id = ?\<close>, read with \<open>.get\<close>: the first row, if any.\<close>

definition meetingRow :: "db \<Rightarrow> ident \<Rightarrow> meeting_row option" where
  "meetingRow d meetingId = find (\<lambda>r. m_id r = meetingId) (meetings d)"

text \<open>
  \<open>selectSpeakers\<close>: the speakers of a meeting, \<open>ORDER BY created_at ASC\<close>. Rows are kept
  in insertion order, which is such an order as long as the clock does not run backwards.
\<close>

definition selectSpeakers :: "db \<Rightarrow> ident \<Rightarrow> speaker_row list" where
  "selectSpeakers d meetingId = filter (\<lambda>s. s_meeting_id s = meetingId) (speakers d)"

text \<open>\<open>getMeeting\<close>: the meeting with its speakers attached, \<open>null\<close> when there is no row.\<close>

type_synonym meeting_view = "meeting_row \<times> speaker_row list"

definition getMeeting :: "db \<Rightarrow> ident \<Rightarrow> meeting_view option" where
  "getMeeting d meetingId =
     (case meetingRow d meetingId of
        None \<Rightarrow> None
      | Some r \<Rightarrow> Some (r, selectSpeakers d meetingId))"

subsection \<open>Updating meetings\<close>

text \<open>\<open>UPDATE meetings SET ... WHERE id = ?\<close>: every row with that id is rewritten.\<close>

definition updateMeetings :: "ident \<Rightarrow> (meeting_row \<Rightarrow> meeting_row) \<Rightarrow> db \<Rightarrow> db" where
  "updateMeetings meetingId f d =
     d\<lparr>meetings := map (\<lambda>r. if m_id r = meetingId then f r else r) (meetings d)\<rparr>"

text \<open>SQL's \<open>COALESCE(a, b)\<close>: the first argument that is not \<open>NULL\<close>.\<close>

definition coalesce :: "'a option \<Rightarrow> 'a option \<Rightarrow> 'a option" where
  "coalesce a b = (case a of Some x \<Rightarrow> Some x | None \<Rightarrow> b)"

definition startMeeting :: "ident \<Rightarrow> timestamp \<Rightarrow> db \<Rightarrow> db" where
  "startMeeting meetingId now d =
     updateMeetings meetingId
       (\<lambda>r. r\<lparr>m_started_at := coalesce (m_started_at r) (Some now)\<rparr>) d"

text \<open>
  \<open>endMeeting(meetingId, { audioFilePath } = {})\<close>. The second argument is \<open>None\<close> when the
  caller passes no path (\<open>undefined\<close> or \<open>null\<close>, which \<open>audioFilePath ?? null\<close> binds as
  \<open>NULL\<close>).
\<close>

definition endMeeting :: "ident \<Rightarrow> string option \<Rightarrow> timestamp \<Rightarrow> db \<Rightarrow> db" where
  "endMeeting meetingId audioFilePath now d =
     updateMeetings meetingId
       (\<lambda>r. r\<lparr>m_ended_at := coalesce (m_ended_at r) (Some now),
              m_audio_file_path := coalesce audioFilePath (m_audio_file_path r),
              m_status := ''processing''\<rparr>) d"

definition updateMeetingStatus :: "ident \<Rightarrow> string \<Rightarrow> db \<Rightarrow> db" where
  "updateMeetingStatus meetingId status d =
     updateMeetings meetingId (\<lambda>r. r\<lparr>m_status := status\<rparr>) d"

subsection \<open>Speakers\<close>

text \<open>Decimal rendering of an index, as the template literal \<open>`Speaker ${index}`\<close> does.\<close>

definition digit_char :: "nat \<Rightarrow> char" where
  "digit_char n = ''0123456789'' ! n"

fun show_nat :: "nat \<Rightarrow> string" where
  "show_nat n = (if n < 10 then [digit_char n] else show_nat (n div 10) @ [digit_char (n mod 10)])"

declare show_nat.simps [simp del]

text \<open>
  \<open>INSERT INTO speakers\<close>. The primary key must be new and, with \<open>foreign_keys = ON\<close>,
  the meeting must exist; otherwise the statement throws.
\<close>

definition insertSpeaker :: "speaker_row \<Rightarrow> db \<Rightarrow> error + db" where
  "insertSpeaker row d =
     (if s_id row \<in> set (map s_id (speakers d)) then Inl PersistenceError
      else if s_meeting_id row \<notin> set (map m_id (meetings d)) then Inl PersistenceError
      else Inr (d\<lparr>speakers := speakers d @ [row]\<rparr>))"

text \<open>
  \<open>DELETE FROM speakers WHERE meeting_id = ?\<close>. The segments that referred to a deleted
  speaker keep their row and lose the reference (\<open>ON DELETE SET NULL\<close>).
\<close>

definition deleteSpeakers :: "ident \<Rightarrow> db \<Rightarrow> db" where
  "deleteSpeakers meetingId d =
     (let gone = map s_id (filter (\<lambda>s. s_meeting_id s = meetingId) (speakers d))
      in d\<lparr>speakers := filter (\<lambda>s. s_meeting_id s \<noteq> meetingId) (speakers d),
            segments := map (\<lambda>g. case g_speaker_id g of
                                    None \<Rightarrow> g
                                  | Some i \<Rightarrow> if i \<in> set gone then g\<lparr>g_speaker_id := None\<rparr> else g)
                            (segments d)\<rparr>)"

text \<open>
  An element of the array given to \<open>resetSpeakers\<close>: \<open>None\<close> is \<open>null\<close> or \<open>undefined\<close>
  (reading \<open>speaker.label\<close> throws), \<open>Some\<close> an object with its optional \<open>label\<close> and
  \<open>displayName\<close>.
\<close>

record speaker_input =
  in_label :: "string option"
  in_displayName :: "string option"

text \<open>
  A JavaScript number: a finite double is a rational number, the three others are
  \<open>NaN\<close> and the infinities.
\<close>

datatype jsnum = NaN | PosInfinity | NegInfinity | Finite rat

text \<open>
  The argument \<open>speakersOrCount\<close>: an array, or anything else, of which the code reads
  only \<open>Number(speakersOrCount)\<close>; \<open>Count\<close> carries that number (\<open>NaN\<close> for a value that
  is not numeric).
\<close>

datatype speakers_or_count = SpeakerList "speaker_input option list" | Count jsnum

text \<open>
  The \<open>forEach\<close> over the items. \<open>rnd k\<close> is the identifier the \<open>k\<close>-th call of
  \<open>randomUUID()\<close> returns.
\<close>

fun insertItems ::
  "(nat \<Rightarrow> ident) \<Rightarrow> ident \<Rightarrow> timestamp \<Rightarrow> nat \<Rightarrow> speaker_input option list \<Rightarrow> db \<Rightarrow> error + db"
where
  "insertItems rnd meetingId now index [] d = Inr d"
| "insertItems rnd meetingId now index (item # rest) d =
     (case item of
        None \<Rightarrow> Inl TypeError
      | Some speaker \<Rightarrow>
          (let label = (case in_label speaker of
                          Some l \<Rightarrow> l
                        | None \<Rightarrow> ''Speaker '' @ show_nat (index + 1));
               displayName = (case in_displayName speaker of Some n \<Rightarrow> n | None \<Rightarrow> label)
           in case insertSpeaker
                     \<lparr>s_id = rnd index, s_meeting_id = meetingId, s_label = label,
                      s_display_name = displayName, s_created_at = now\<rparr> d of
                Inl e \<Rightarrow> Inl e
              | Inr d' \<Rightarrow> insertItems rnd meetingId now (index + 1) rest d'))"

text \<open>The loop \<open>for (let index = 1; index <= safeCount; index += 1)\<close>.\<close>

function countLoop ::
  "(nat \<Rightarrow> ident) \<Rightarrow> ident \<Rightarrow> timestamp \<Rightarrow> rat \<Rightarrow> nat \<Rightarrow> db \<Rightarrow> error + db"
where
  "countLoop rnd meetingId now safeCount index d =
     (if of_nat index \<le> safeCount then
        (let label = ''Speaker '' @ show_nat index
         in case insertSpeaker
                   \<lparr>s_id = rnd (index - 1), s_meeting_id = meetingId, s_label = label,
                    s_display_name = label, s_created_at = now\<rparr> d of
              Inl e \<Rightarrow> Inl e
            | Inr d' \<Rightarrow> countLoop rnd meetingId now safeCount (index + 1) d')
      else Inr d)"
  by pat_completeness auto
termination
proof (relation "measure (\<lambda>(rnd, meetingId, now, safeCount, index, d). nat (\<lfloor>safeCount\<rfloor> + 1) - index)")
  show "wf (measure (\<lambda>(rnd, meetingId, now, safeCount, index, d). nat (\<lfloor>safeCount\<rfloor> + 1) - index))"
    by simp
next
  fix rnd :: "nat \<Rightarrow> ident" and meetingId now :: string and safeCount :: rat
    and index :: nat and d :: db and x :: string and d' :: db
  assume le: "of_nat index \<le> safeCount"
  have "int index \<le> \<lfloor>safeCount\<rfloor>"
    using le by (simp add: le_floor_iff)
  then show "((rnd, meetingId, now, safeCount, index + 1, d'), (rnd, meetingId, now, safeCount, index, d))
      \<in> measure (\<lambda>(rnd, meetingId, now, safeCount, index, d). nat (\<lfloor>safeCount\<rfloor> + 1) - index)"
    by simp
qed

declare countLoop.simps [simp del]

definition resetSpeakersInternal ::
  "(nat \<Rightarrow> ident) \<Rightarrow> ident \<Rightarrow> speakers_or_count \<Rightarrow> timestamp \<Rightarrow> db \<Rightarrow> error + db"
where
  "resetSpeakersInternal rnd meetingId speakersOrCount now d =
     (let d1 = deleteSpeakers meetingId d
      in case speakersOrCount of
           SpeakerList xs \<Rightarrow>
             (let items = (if xs \<noteq> [] then xs
                           else [Some \<lparr>in_label = Some ''Speaker 1'', in_displayName = None\<rparr>])
              in insertItems rnd meetingId now 0 items d1)
         | Count n \<Rightarrow>
             (let count = (case n of Finite q \<Rightarrow> q | _ \<Rightarrow> 0);
                  safeCount = (if count > 0 then count else 2)
              in countLoop rnd meetingId now safeCount 1 d1))"

text \<open>
  \<open>resetSpeakers\<close> runs \<open>resetSpeakersInternal\<close> in a transaction: when it throws, the
  store is rolled back (the caller keeps the state it had) and the exception goes on.
\<close>

definition resetSpeakers ::
  "(nat \<Rightarrow> ident) \<Rightarrow> ident \<Rightarrow> speakers_or_count \<Rightarrow> timestamp \<Rightarrow> db \<Rightarrow> error + db"
where
  "resetSpeakers rnd meetingId speakersOrCount now d =
     resetSpeakersInternal rnd meetingId speakersOrCount now d"

text \<open>\<open>UPDATE speakers SET display_name = ? WHERE id = ? AND meeting_id = ?\<close>.\<close>

definition renameSpeaker :: "ident \<Rightarrow> ident \<Rightarrow> string \<Rightarrow> db \<Rightarrow> db" where
  "renameSpeaker meetingId speakerId displayName d =
     d\<lparr>speakers := map (\<lambda>s. if s_id s = speakerId \<and> s_meeting_id s = meetingId
                              then s\<lparr>s_display_name := displayName\<rparr> else s)
                       (speakers d)\<rparr>"

text \<open>\<open>addSpeaker\<close>; \<open>newId\<close> is the identifier \<open>randomUUID()\<close> returns.\<close>

definition addSpeaker :: "ident \<Rightarrow> ident \<Rightarrow> string \<Rightarrow> timestamp \<Rightarrow> db \<Rightarrow> error + db" where
  "addSpeaker newId meetingId displayName now d =
     (case getMeeting d meetingId of
        None \<Rightarrow> Inl MeetingNotFound
      | Some meeting \<Rightarrow>
          (let speakerCount = length (snd meeting);
               label = ''Speaker '' @ show_nat (speakerCount + 1)
           in insertSpeaker
                \<lparr>s_id = newId, s_meeting_id = meetingId, s_label = label,
                 s_display_name = displayName, s_created_at = now\<rparr> d))"

subsection \<open>Strings of the language\<close>

text \<open>
  White space and line terminators as \<open>String.prototype.trim\<close> and the regular
  expression class \<open>\s\<close> read them, among the code units below 256: tab, line feed,
  vertical tab, form feed, carriage return, space and the no-break space.
\<close>

definition js_space :: "char \<Rightarrow> bool" where
  "js_space c = (c \<in> set [CHR 0x09, CHR 0x0A, CHR 0x0B, CHR 0x0C, CHR 0x0D, CHR 0x20, CHR 0xA0])"

definition trimStart :: "string \<Rightarrow> string" where
  "trimStart s = dropWhile js_space s"

definition trimEnd :: "string \<Rightarrow> string" where
  "trimEnd s = rev (dropWhile js_space (rev s))"

definition trim :: "string \<Rightarrow> string" where
  "trim s = trimEnd (trimStart s)"

subsection \<open>The route that renames a speaker\<close>

text \<open>
  A response: the JSON body of a success (the meeting as \<open>getMeeting\<close> returns it; the
  links to its files are left out), or a status code with an error message.
\<close>

datatype response = Success "meeting_view option" | Failure nat string

text \<open>
  \<open>PATCH /api/meetings/:meetingId/speakers/:speakerId\<close>. The file registers two handlers
  for this path; the first one answers every request and never calls \<open>next\<close>, so it is
  the one that runs. \<open>displayName\<close> is \<open>None\<close> when the body has none.
\<close>

definition patchSpeaker :: "ident \<Rightarrow> ident \<Rightarrow> string option \<Rightarrow> db \<Rightarrow> response \<times> db" where
  "patchSpeaker meetingId speakerId displayName d =
     (case getMeeting d meetingId of
        None \<Rightarrow> (Failure 404 ''Meeting not found'', d)
      | Some meeting \<Rightarrow>
          (case displayName of
             None \<Rightarrow> (Failure 400 ''Speaker display name is required'', d)
           | Some n \<Rightarrow>
               if n = [] \<or> trim n = [] then (Failure 400 ''Speaker display name is required'', d)
               else (let d' = renameSpeaker meetingId speakerId (trim n) d
                     in (Success (getMeeting d' meetingId), d'))))"

subsection \<open>Example states\<close>

text \<open>
  A store with two meetings: \<open>m1\<close>, recorded and ended, with two speakers, and \<open>m2\<close>,
  just created, with one.
\<close>

definition ex_meeting :: meeting_row where
  "ex_meeting = \<lparr>m_id = ''m1'', m_name = ''Weekly'', m_status = ''done'', m_created_at = ''t0'',
      m_started_at = Some ''t1'', m_ended_at = Some ''t2'', m_audio_file_path = Some ''a.wav''\<rparr>"

definition ex_db :: db where
  "ex_db = \<lparr>meetings = [ex_meeting,
        \<lparr>m_id = ''m2'', m_name = ''Retro'', m_status = ''pending'', m_created_at = ''t3'',
         m_started_at = None, m_ended_at = None, m_audio_file_path = None\<rparr>],
      speakers = [
        \<lparr>s_id = ''s1'', s_meeting_id = ''m1'', s_label = ''Speaker 1'', s_display_name = ''Alice'', s_created_at = ''t0''\<rparr>,
        \<lparr>s_id = ''s2'', s_meeting_id = ''m1'', s_label = ''Speaker 2'', s_display_name = ''Speaker 2'', s_created_at = ''t0''\<rparr>,
        \<lparr>s_id = ''s3'', s_meeting_id = ''m2'', s_label = ''Speaker 1'', s_display_name = ''Speaker 1'', s_created_at = ''t3''\<rparr>],
      segments = []\<rparr>"

text \<open>A supply of identifiers: \<open>u0\<close>, \<open>u1\<close>, \<open>u2\<close>, ...\<close>

definition ex_rnd :: "nat \<Rightarrow> ident" where
  "ex_rnd k = CHR ''u'' # show_nat k"


subsection \<open>JSON values\<close>

text \<open>
  The values \<open>JSON.parse\<close> returns. A number is a finite double, so a rational. An
  object is the list of its properties; \<open>JSON.parse\<close> returns each key once.
\<close>

datatype json =
    JNull
  | JBool bool
  | JNum rat
  | JStr string
  | JArr "json list"
  | JObj "(string \<times> json) list"

text \<open>The truthiness \<open>if (!payload)\<close> and \<open>payload.status && ...\<close> test.\<close>

fun truthy :: "json \<Rightarrow> bool" where
  "truthy JNull = False"
| "truthy (JBool b) = b"
| "truthy (JNum q) = (q \<noteq> 0)"
| "truthy (JStr s) = (s \<noteq> [])"
| "truthy (JArr xs) = True"
| "truthy (JObj kvs) = True"

text \<open>
  A variable that may hold \<open>undefined\<close> is a \<^typ>\<open>json option\<close>; \<open>!v\<close> is \<open>falsy v\<close> and
  \<open>a ?? b\<close> is \<open>nullish_or a b\<close>.
\<close>

definition falsy :: "json option \<Rightarrow> bool" where
  "falsy v = (case v of None \<Rightarrow> True | Some x \<Rightarrow> \<not> truthy x)"

definition nullish_or :: "json option \<Rightarrow> json option \<Rightarrow> json option" where
  "nullish_or a b = (case a of None \<Rightarrow> b | Some JNull \<Rightarrow> b | Some x \<Rightarrow> Some x)"

text \<open>
  Reading a property of a value that is not \<open>null\<close>, for the property names the code
  reads (none of them is \<open>length\<close>): an object gives the property, or \<open>undefined\<close> when it
  has none; a number, a string, a boolean or an array gives \<open>undefined\<close>. Reading a
  property of \<open>null\<close> throws, which the callers test before they read.
\<close>

definition getProp :: "json \<Rightarrow> string \<Rightarrow> json option" where
  "getProp v k = (case v of JObj kvs \<Rightarrow> map_of kvs k | _ \<Rightarrow> None)"

subsection \<open>Lines of a text\<close>

abbreviation (input) LF :: char where "LF \<equiv> CHR 0x0A"
abbreviation (input) CR :: char where "CR \<equiv> CHR 0x0D"

text \<open>
  \<open>text.split(/\r?\n/)\<close>: a line feed, or a carriage return followed by a line feed,
  separates two pieces; a carriage return alone is an ordinary character.
\<close>

fun splitLines :: "string \<Rightarrow> string list" where
  "splitLines [] = [[]]"
| "splitLines [c] = (if c = CHR 0x0A then [[], []] else [[c]])"
| "splitLines (c # c' # cs) =
     (if c = CHR 0x0D \<and> c' = CHR 0x0A then [] # splitLines cs
      else if c = CHR 0x0A then [] # splitLines (c' # cs)
      else (case splitLines (c' # cs) of
              [] \<Rightarrow> [[c]]
            | l # ls \<Rightarrow> (c # l) # ls))"

subsection \<open>Launching the analysis process (backend/diarization.js)\<close>

text \<open>
  What the spawned process does is an input: it cannot be started (the \<open>error\<close> event),
  or it ends (the \<open>close\<close> event) with an exit code, \<open>null\<close> when a signal killed it,
  after writing the two captured streams.
\<close>

datatype proc_outcome = SpawnError | Closed "int option" string string

record run_result =
  stdout :: string
  stderr :: string
  outputDir :: string

text \<open>The template literal \<open>${code}\<close> of an exit code.\<close>

definition show_code :: "int option \<Rightarrow> string" where
  "show_code code =
     (case code of
        None \<Rightarrow> ''null''
      | Some i \<Rightarrow> if i < 0 then CHR ''-'' # show_nat (nat (- i)) else show_nat (nat i))"

text \<open>
  \<open>runDiarization\<close>. \<open>exists\<close> is \<open>fs.existsSync\<close>, \<open>dir\<close> the output directory
  \<open>path.join(__dirname, "..", "data", "outputs", meetingId)\<close>, which the function creates
  before it starts the process. The arguments of the process are built from the device
  and the options; they reach the model only through what the process does.
\<close>

definition runDiarization ::
  "(string \<Rightarrow> bool) \<Rightarrow> proc_outcome \<Rightarrow> string \<Rightarrow> string option \<Rightarrow> error + run_result"
where
  "runDiarization exists proc dir audioPath =
     (case audioPath of
        None \<Rightarrow> Inl AudioNotFound
      | Some p \<Rightarrow>
          if p = [] \<or> \<not> exists p then Inl AudioNotFound
          else (case proc of
                  SpawnError \<Rightarrow> Inl LaunchFailure
                | Closed code out err \<Rightarrow>
                    if code \<noteq> Some 0 then
                      Inl (ProcessFailure
                             (''Diarization process exited with code '' @ show_code code
                                @ [CHR ''.'', CHR 0x0A] @ (if err \<noteq> [] then err else out)))
                    else Inr \<lparr>stdout = out, stderr = err, outputDir = dir\<rparr>))"

subsection \<open>Storing segments\<close>

text \<open>A normalized segment, as \<open>storeSegments\<close> binds it.\<close>

record segment_input =
  gi_id :: "string option"
  gi_speakerId :: "string option"
  gi_startMs :: int
  gi_endMs :: int
  gi_transcript :: string
  gi_createdAt :: "string option"

text \<open>
  \<open>INSERT INTO segments\<close>: a new primary key, an existing meeting and, when the speaker
  reference is not \<open>NULL\<close>, an existing speaker.
\<close>

definition insertSegment :: "segment_row \<Rightarrow> db \<Rightarrow> error + db" where
  "insertSegment row d =
     (if g_id row \<in> set (map g_id (segments d)) then Inl PersistenceError
      else if g_meeting_id row \<notin> set (map m_id (meetings d)) then Inl PersistenceError
      else if (case g_speaker_id row of None \<Rightarrow> False | Some i \<Rightarrow> i \<notin> set (map s_id (speakers d)))
        then Inl PersistenceError
      else Inr (d\<lparr>segments := segments d @ [row]\<rparr>))"

text \<open>
  The \<open>forEach\<close> of \<open>storeSegments\<close>; \<open>rnd index\<close> is the identifier \<open>randomUUID()\<close>
  gives the segment at \<open>index\<close> when it has none of its own.
\<close>

fun insertSegments ::
  "(nat \<Rightarrow> ident) \<Rightarrow> ident \<Rightarrow> timestamp \<Rightarrow> nat \<Rightarrow> segment_input list \<Rightarrow> db \<Rightarrow> error + db"
where
  "insertSegments rnd meetingId now index [] d = Inr d"
| "insertSegments rnd meetingId now index (segment # rest) d =
     (case insertSegment
             \<lparr>g_id = (case gi_id segment of Some i \<Rightarrow> i | None \<Rightarrow> rnd index),
              g_meeting_id = meetingId,
              g_speaker_id = gi_speakerId segment,
              g_start_ms = gi_startMs segment,
              g_end_ms = gi_endMs segment,
              g_transcript = gi_transcript segment,
              g_created_at = (case gi_createdAt segment of Some t \<Rightarrow> t | None \<Rightarrow> now)\<rparr> d of
        Inl e \<Rightarrow> Inl e
      | Inr d' \<Rightarrow> insertSegments rnd meetingId now (index + 1) rest d')"

text \<open>\<open>storeSegments\<close>: delete the meeting's segments and insert the new ones, in one transaction.\<close>

definition storeSegments ::
  "(nat \<Rightarrow> ident) \<Rightarrow> ident \<Rightarrow> segment_input list \<Rightarrow> timestamp \<Rightarrow> db \<Rightarrow> error + db"
where
  "storeSegments rnd meetingId segs now d =
     insertSegments rnd meetingId now 0 segs
       (d\<lparr>segments := filter (\<lambda>g. g_meeting_id g \<noteq> meetingId) (segments d)\<rparr>)"


subsection \<open>The job handler (backend/server.js, handleDiarization)\<close>

text \<open>
  What a job reads from outside the store. \<open>env_parse\<close> is \<open>JSON.parse\<close> (\<open>None\<close> when it
  throws). \<open>env_bind_text\<close> is what the SQLite driver stores in a text column for a
  value that is neither a string nor \<open>null\<close> (\<open>None\<close> when it refuses the value).
  \<open>env_bind_ms a b\<close> is what it stores for \<open>a ?? Math.round((b ?? 0) * 1000)\<close> in an
  integer column declared \<open>NOT NULL\<close> (\<open>None\<close> when the statement throws); the
  floating-point product and the driver's conversion are not modelled further.
  \<open>env_exists p\<close> is \<open>fs.existsSync(path.resolve(p))\<close>; the files do not change while a
  job runs. \<open>env_result_file\<close> is the text of \<open>diarization.json\<close> in the output directory,
  when that file exists.
\<close>

record job_env =
  env_parse :: "string \<Rightarrow> json option"
  env_bind_text :: "json \<Rightarrow> string option"
  env_bind_ms :: "json option \<Rightarrow> json option \<Rightarrow> int option"
  env_exists :: "string \<Rightarrow> bool"
  env_process :: proc_outcome
  env_output_dir :: string
  env_result_file :: "string option"
  env_speaker_ids :: "nat \<Rightarrow> ident"
  env_segment_ids :: "nat \<Rightarrow> ident"
  env_now :: timestamp

text \<open>
  The loop over the lines, from the last to the first: the argument is the list of lines
  reversed. The first candidate that parses ends the loop.
\<close>

fun scanLinesBack :: "(string \<Rightarrow> json option) \<Rightarrow> string list \<Rightarrow> json option" where
  "scanLinesBack parse [] = None"
| "scanLinesBack parse (line # earlier) =
     (case parse (trim line) of
        Some v \<Rightarrow> Some v
      | None \<Rightarrow> scanLinesBack parse earlier)"

definition scanStdout :: "(string \<Rightarrow> json option) \<Rightarrow> string \<Rightarrow> json option" where
  "scanStdout parse out =
     (let trimmed = trim out
      in if trimmed = [] then None
         else scanLinesBack parse (rev (filter (\<lambda>line. trim line \<noteq> []) (splitLines trimmed))))"

text \<open>The lines the scan visits: the lines of the trimmed output that are not blank.\<close>

definition stdoutLines :: "string \<Rightarrow> string list" where
  "stdoutLines out = filter (\<lambda>line. trim line \<noteq> []) (splitLines (trim out))"

text \<open>
  The payload of a finished process: the scan of the output, then, \<open>if (!payload)\<close>, the
  result file when it exists (\<open>JSON.parse\<close> of its text may throw), then, \<open>if (!payload)\<close>,
  the exception \<open>Diarization payload missing\<close>.
\<close>

definition resolvePayload ::
  "(string \<Rightarrow> json option) \<Rightarrow> string \<Rightarrow> string option \<Rightarrow> error + json"
where
  "resolvePayload parse out file =
     (let payload = scanStdout parse out
      in case (if falsy payload then
                 (case file of
                    None \<Rightarrow> Inr payload
                  | Some filePayload \<Rightarrow>
                      (case parse filePayload of
                         None \<Rightarrow> Inl SyntaxError
                       | Some v \<Rightarrow> Inr (Some v)))
               else Inr payload) of
           Inl e \<Rightarrow> Inl e
         | Inr None \<Rightarrow> Inl PayloadMissing
         | Inr (Some v) \<Rightarrow> if truthy v then Inr v else Inl PayloadMissing)"

text \<open>Sequencing of steps that may throw.\<close>

definition bindE :: "error + 'a \<Rightarrow> ('a \<Rightarrow> error + 'b) \<Rightarrow> error + 'b" where
  "bindE m f = (case m of Inl e \<Rightarrow> Inl e | Inr x \<Rightarrow> f x)"

fun mapE :: "('a \<Rightarrow> error + 'b) \<Rightarrow> 'a list \<Rightarrow> error + 'b list" where
  "mapE f [] = Inr []"
| "mapE f (x # xs) = bindE (f x) (\<lambda>y. bindE (mapE f xs) (\<lambda>ys. Inr (y # ys)))"

text \<open>
  A value bound to a text column, after \<open>?? default\<close>: \<open>undefined\<close> and \<open>null\<close> give the
  default (\<open>None\<close>), a string is stored as it is, any other value as the driver decides.
\<close>

definition bindText :: "(json \<Rightarrow> string option) \<Rightarrow> json option \<Rightarrow> error + string option" where
  "bindText bind v =
     (case v of
        None \<Rightarrow> Inr None
      | Some JNull \<Rightarrow> Inr None
      | Some (JStr s) \<Rightarrow> Inr (Some s)
      | Some x \<Rightarrow> (case bind x of None \<Rightarrow> Inl TypeError | Some s \<Rightarrow> Inr (Some s)))"

text \<open>
  An element of \<open>payload.speakers\<close> as \<open>resetSpeakersInternal\<close> reads it. The values are
  bound here, before the rows are inserted; the handler treats every exception alike and
  the transaction is rolled back, so the order in which two failures would be met does
  not show in the store.
\<close>

definition speakerInput :: "(json \<Rightarrow> string option) \<Rightarrow> json \<Rightarrow> error + speaker_input option" where
  "speakerInput bind item =
     (case item of
        JNull \<Rightarrow> Inr None
      | _ \<Rightarrow>
          bindE (bindText bind (getProp item ''label'')) (\<lambda>l.
          bindE (bindText bind (getProp item ''displayName'')) (\<lambda>n.
            Inr (Some \<lparr>in_label = l, in_displayName = n\<rparr>))))"

text \<open>
  \<open>labelToSpeakerId.get(key)\<close>: the map has the stored labels, which are strings, as
  keys, so a key that is not a string finds nothing.
\<close>

definition lookupSpeakerId :: "(string \<rightharpoonup> ident) \<Rightarrow> json option \<Rightarrow> json option" where
  "lookupSpeakerId labelToSpeakerId key =
     (case key of
        Some (JStr l) \<Rightarrow> map_option JStr (labelToSpeakerId l)
      | _ \<Rightarrow> None)"

text \<open>One element of \<open>normalizedSegments\<close>, with its values bound.\<close>

definition segmentInput ::
  "job_env \<Rightarrow> (string \<rightharpoonup> ident) \<Rightarrow> json \<Rightarrow> error + segment_input"
where
  "segmentInput env labelToSpeakerId segment =
     (case segment of
        JNull \<Rightarrow> Inl TypeError
      | _ \<Rightarrow>
          bindE (bindText (env_bind_text env) (getProp segment ''id'')) (\<lambda>i.
          bindE (case env_bind_ms env (getProp segment ''startMs'') (getProp segment ''start'') of
                   None \<Rightarrow> Inl PersistenceError | Some a \<Rightarrow> Inr a) (\<lambda>a.
          bindE (case env_bind_ms env (getProp segment ''endMs'') (getProp segment ''end'') of
                   None \<Rightarrow> Inl PersistenceError | Some b \<Rightarrow> Inr b) (\<lambda>b.
          bindE (bindText (env_bind_text env)
                   (nullish_or (getProp segment ''transcript'')
                      (nullish_or (getProp segment ''text'') (Some (JStr []))))) (\<lambda>t.
          bindE (bindText (env_bind_text env)
                   (nullish_or (getProp segment ''speakerId'')
                      (lookupSpeakerId labelToSpeakerId
                         (nullish_or (getProp segment ''speakerLabel'') (getProp segment ''speaker''))))) (\<lambda>sp.
          bindE (bindText (env_bind_text env) (getProp segment ''createdAt'')) (\<lambda>c.
            Inr \<lparr>gi_id = i, gi_speakerId = sp, gi_startMs = a, gi_endMs = b,
                 gi_transcript = (case t of Some x \<Rightarrow> x | None \<Rightarrow> []),
                 gi_createdAt = c\<rparr>)))))))"

text \<open>
  The persistence of a payload: the speakers, then the segments. Each is a transaction
  of its own: when the segments fail, the new speakers stay. The result is the store and
  the exception, if any.
\<close>

definition persistPayload :: "job_env \<Rightarrow> ident \<Rightarrow> json \<Rightarrow> db \<Rightarrow> db \<times> error option" where
  "persistPayload env meetingId payload d =
     (case getProp payload ''speakers'' of
        Some (JArr (item # items)) \<Rightarrow>
          (case bindE (mapE (speakerInput (env_bind_text env)) (item # items))
                  (\<lambda>inputs. resetSpeakers (env_speaker_ids env) meetingId (SpeakerList inputs)
                                (env_now env) d) of
             Inl e \<Rightarrow> (d, Some e)
           | Inr d1 \<Rightarrow>
               (let labelToSpeakerId =
                      map_of (rev (map (\<lambda>s. (s_label s, s_id s)) (selectSpeakers d1 meetingId)))
                in case getProp payload ''segments'' of
                     Some (JArr (seg # segs)) \<Rightarrow>
                       (case bindE (mapE (segmentInput env labelToSpeakerId) (seg # segs))
                               (\<lambda>normalizedSegments.
                                  storeSegments (env_segment_ids env) meetingId
                                    normalizedSegments (env_now env) d1) of
                          Inl e \<Rightarrow> (d1, Some e)
                        | Inr d2 \<Rightarrow> (d2, None))
                   | _ \<Rightarrow> (d1, None)))
      | _ \<Rightarrow> (d, None))"

text \<open>\<open>payload.status && typeof payload.status === "string" ? payload.status : "done"\<close>.\<close>

definition nextStatus :: "json \<Rightarrow> string" where
  "nextStatus payload =
     (case getProp payload ''status'' of
        Some (JStr s) \<Rightarrow> if s \<noteq> [] then s else ''done''
      | _ \<Rightarrow> ''done'')"

text \<open>
  The job up to the update of the status: the store it leaves, and either the error that
  ended it (the two early returns, which the specification calls \<open>AudioNotFound\<close>, or the
  exception the \<open>catch\<close> block receives and logs) or the payload it extracted and
  persisted.
\<close>

definition runJob :: "job_env \<Rightarrow> ident \<Rightarrow> string option \<Rightarrow> db \<Rightarrow> db \<times> (error + json)" where
  "runJob env meetingId audioPath d =
     (case audioPath of
        None \<Rightarrow> (d, Inl AudioNotFound)
      | Some p \<Rightarrow>
          if p = [] then (d, Inl AudioNotFound)
          else if \<not> env_exists env p then (d, Inl AudioNotFound)
          else (case runDiarization (env_exists env) (env_process env) (env_output_dir env) (Some p) of
                  Inl e \<Rightarrow> (d, Inl e)
                | Inr result \<Rightarrow>
                    (case resolvePayload (env_parse env) (stdout result) (env_result_file env) of
                       Inl e \<Rightarrow> (d, Inl e)
                     | Inr payload \<Rightarrow>
                         (case persistPayload env meetingId payload d of
                            (d', Some e) \<Rightarrow> (d', Inl e)
                          | (d', None) \<Rightarrow> (d', Inr payload)))))"

definition handleDiarization :: "job_env \<Rightarrow> ident \<Rightarrow> string option \<Rightarrow> db \<Rightarrow> db" where
  "handleDiarization env meetingId audioPath d =
     (case runJob env meetingId audioPath d of
        (d', Inl e) \<Rightarrow> updateMeetingStatus meetingId ''failed'' d'
      | (d', Inr payload) \<Rightarrow> updateMeetingStatus meetingId (nextStatus payload) d')"

subsection \<open>The routes that change a meeting\<close>

text \<open>\<open>INSERT INTO meetings\<close>: the primary key must be new.\<close>

definition insertMeeting :: "meeting_row \<Rightarrow> db \<Rightarrow> error + db" where
  "insertMeeting row d =
     (if m_id row \<in> set (map m_id (meetings d)) then Inl PersistenceError
      else Inr (d\<lparr>meetings := meetings d @ [row]\<rparr>))"

text \<open>
  \<open>createMeeting\<close>: \<open>meetingId\<close> is the identifier \<open>randomUUID()\<close> returns for the meeting,
  \<open>speakerCount\<close> the number the route passes.
\<close>

definition createMeeting ::
  "ident \<Rightarrow> (nat \<Rightarrow> ident) \<Rightarrow> string \<Rightarrow> jsnum \<Rightarrow> timestamp \<Rightarrow> db \<Rightarrow> error + db"
where
  "createMeeting meetingId rnd name speakerCount now d =
     bindE (insertMeeting
              \<lparr>m_id = meetingId, m_name = name, m_status = ''pending'', m_created_at = now,
               m_started_at = None, m_ended_at = None, m_audio_file_path = None\<rparr> d)
       (\<lambda>d1. resetSpeakersInternal rnd meetingId (Count speakerCount) now d1)"

definition updateMeeting :: "ident \<Rightarrow> string \<Rightarrow> db \<Rightarrow> db" where
  "updateMeeting meetingId name d = updateMeetings meetingId (\<lambda>r. r\<lparr>m_name := name\<rparr>) d"

text \<open>
  \<open>POST /api/meetings/:meetingId/end\<close>, without the job it queues when a path is given.
\<close>

definition postEnd :: "ident \<Rightarrow> string option \<Rightarrow> timestamp \<Rightarrow> db \<Rightarrow> db" where
  "postEnd meetingId audioFilePath now d =
     (case getMeeting d meetingId of
        None \<Rightarrow> d
      | Some meeting \<Rightarrow>
          (let updated = endMeeting meetingId audioFilePath now d
           in if audioFilePath \<noteq> None \<and> audioFilePath \<noteq> Some []
              then updated
              else updateMeetingStatus meetingId ''failed'' updated))"

text \<open>\<open>POST /api/meetings/:meetingId/audio\<close> with an uploaded file, without the job it queues.\<close>

definition postAudio :: "ident \<Rightarrow> string \<Rightarrow> timestamp \<Rightarrow> db \<Rightarrow> db" where
  "postAudio meetingId audioPath now d =
     (case getMeeting d meetingId of
        None \<Rightarrow> d
      | Some meeting \<Rightarrow> endMeeting meetingId (Some audioPath) now d)"

text \<open>\<open>POST /api/meetings/:meetingId/reprocess\<close>, without the job it queues.\<close>

definition postReprocess :: "(string \<Rightarrow> bool) \<Rightarrow> ident \<Rightarrow> db \<Rightarrow> db" where
  "postReprocess exists meetingId d =
     (case meetingRow d meetingId of
        None \<Rightarrow> d
      | Some meeting \<Rightarrow>
          (case m_audio_file_path meeting of
             None \<Rightarrow> d
           | Some p \<Rightarrow>
               if p = [] \<or> \<not> exists p then d
               else updateMeetingStatus meetingId ''processing'' d))"

text \<open>
  The states the store can reach from the empty one. \<open>E\<close> is the set of environments
  the jobs may meet. The routes run at once; a job they queue runs later, as a step of
  its own.
\<close>

inductive reachable :: "job_env set \<Rightarrow> db \<Rightarrow> bool" for E :: "job_env set" where
  r_init: "reachable E \<lparr>meetings = [], speakers = [], segments = []\<rparr>"
| r_create: "reachable E d \<Longrightarrow> createMeeting meetingId rnd name n now d = Inr d' \<Longrightarrow> reachable E d'"
| r_update: "reachable E d \<Longrightarrow> reachable E (updateMeeting meetingId name d)"
| r_start: "reachable E d \<Longrightarrow> reachable E (startMeeting meetingId now d)"
| r_end: "reachable E d \<Longrightarrow> reachable E (postEnd meetingId audioFilePath now d)"
| r_audio: "reachable E d \<Longrightarrow> reachable E (postAudio meetingId audioPath now d)"
| r_reprocess: "reachable E d \<Longrightarrow> reachable E (postReprocess exists meetingId d)"
| r_job: "reachable E d \<Longrightarrow> env \<in> E \<Longrightarrow> reachable E (handleDiarization env meetingId audioPath d)"
| r_reset: "reachable E d \<Longrightarrow> resetSpeakers rnd meetingId arg now d = Inr d' \<Longrightarrow> reachable E d'"
| r_rename: "reachable E d \<Longrightarrow> reachable E (snd (patchSpeaker meetingId speakerId displayName d))"
| r_add: "reachable E d \<Longrightarrow> addSpeaker newId meetingId displayName now d = Inr d' \<Longrightarrow> reachable E d'"

text \<open>The four states of the lifecycle.\<close>

definition lifecycle :: "string set" where
  "lifecycle = {''pending'', ''processing'', ''done'', ''failed''}"


subsection \<open>The rewriter of the CSV export (applySpeakerNamesToCsv)\<close>

text \<open>
  The replacements are a \<open>Map\<close> from stable label to display name: the list of its
  entries in the order of insertion, each key once. \<open>replacements.get(key)\<close> is
  \<open>map_of\<close>.
\<close>

type_synonym replacements = "(string \<times> string) list"

text \<open>\<open>row.indexOf(",")\<close>: \<open>None\<close> stands for \<open>-1\<close>.\<close>

fun indexOf :: "char \<Rightarrow> string \<Rightarrow> nat option" where
  "indexOf c [] = None"
| "indexOf c (x # xs) = (if x = c then Some 0 else map_option Suc (indexOf c xs))"

text \<open>\<open>rows.join(newline)\<close>.\<close>

fun joinWith :: "string \<Rightarrow> string list \<Rightarrow> string" where
  "joinWith sep [] = []"
| "joinWith sep [row] = row"
| "joinWith sep (row # next # rows) = row @ sep @ joinWith sep (next # rows)"

text \<open>
  The callback of \<open>rows.map\<close> for a row that is not the first: the new row, and whether
  the callback set \<open>changed\<close>. \<open>/^\s*/\<close> matches the white space the field starts with,
  \<open>/\s*$/\<close> the white space it ends with.
\<close>

definition rewriteCsvRow :: "replacements \<Rightarrow> string \<Rightarrow> string \<times> bool" where
  "rewriteCsvRow replacements row =
     (if trim row = [] then (row, False)
      else case indexOf CHR '','' row of
             None \<Rightarrow> (row, False)
           | Some commaIndex \<Rightarrow>
               (let rawSpeaker = take commaIndex row;
                    trimmedSpeaker = trim rawSpeaker
                in case map_of replacements trimmedSpeaker of
                     None \<Rightarrow> (row, False)
                   | Some nextName \<Rightarrow>
                       if nextName = [] \<or> nextName = trimmedSpeaker then (row, False)
                       else (let leadingWhitespace = takeWhile js_space rawSpeaker;
                                 trailingWhitespace = rev (takeWhile js_space (rev rawSpeaker))
                             in (leadingWhitespace @ nextName @ trailingWhitespace
                                   @ drop commaIndex row, True))))"

text \<open>The rows after \<open>rows.map\<close>: the first row is returned as it is.\<close>

definition rewriteCsvRows :: "replacements \<Rightarrow> string list \<Rightarrow> (string \<times> bool) list" where
  "rewriteCsvRows replacements rows =
     (case rows of
        [] \<Rightarrow> []
      | header # rest \<Rightarrow> (header, False) # map (rewriteCsvRow replacements) rest)"

text \<open>
  \<open>applySpeakerNamesToCsv\<close>. The file is \<open>None\<close> when it does not exist, and its text
  otherwise; the result is what the function returns and the file it leaves.
\<close>

definition applySpeakerNamesToCsv :: "replacements \<Rightarrow> string option \<Rightarrow> bool \<times> string option" where
  "applySpeakerNamesToCsv replacements file =
     (case file of
        None \<Rightarrow> (False, None)
      | Some original \<Rightarrow>
          (let rows = splitLines original;
               newline = (if sublist [CHR 0x0D, CHR 0x0A] original then [CHR 0x0D, CHR 0x0A]
                          else [CHR 0x0A]);
               hadTrailingNewline =
                 (suffix [CHR 0x0D, CHR 0x0A] original \<or> suffix [CHR 0x0A] original);
               updated = rewriteCsvRows replacements rows;
               changed = list_ex snd updated
           in if \<not> changed then (False, Some original)
              else (let joined = joinWith newline (map fst updated);
                        nextContent = (if hadTrailingNewline \<and> \<not> suffix newline joined
                                       then joined @ newline else joined)
                    in (True, Some nextContent))))"

text \<open>
  The line breaks of a text, in order: the separators at which \<open>splitLines\<close> cuts, each
  a line feed alone or a carriage return with a line feed.
\<close>

fun lineBreaks :: "string \<Rightarrow> string list" where
  "lineBreaks [] = []"
| "lineBreaks [c] = (if c = CHR 0x0A then [[CHR 0x0A]] else [])"
| "lineBreaks (c # c' # cs) =
     (if c = CHR 0x0D \<and> c' = CHR 0x0A then [CHR 0x0D, CHR 0x0A] # lineBreaks cs
      else if c = CHR 0x0A then [CHR 0x0A] # lineBreaks (c' # cs)
      else lineBreaks (c' # cs))"


subsection \<open>The rewriter of the text exports (replaceSpeakerPrefixes)\<close>

text \<open>
  \<open>escapeRegExp\<close> is \<open>value.replace(/[.*+?^${}()|[\\]\\]/g, "\\$&")\<close>. As the
  expression is written, the class ends at the first closing bracket: it matches one
  character of \<open>. * + ? ^ $ { } ( ) | [\<close> or a backslash, followed by a backslash and a
  closing bracket, and the replacement puts a backslash before these three characters.
\<close>

abbreviation (input) backslash :: char where "backslash \<equiv> CHR 0x5C"

definition escapeClass :: "char \<Rightarrow> bool" where
  "escapeClass c = (c \<in> set ''.*+?^${}()|['' \<or> c = backslash)"

fun escapeRegExp :: "string \<Rightarrow> string" where
  "escapeRegExp (c1 # c2 # c3 # rest) =
     (if escapeClass c1 \<and> c2 = backslash \<and> c3 = CHR '']''
      then backslash # c1 # c2 # c3 # escapeRegExp rest
      else c1 # escapeRegExp (c2 # c3 # rest))"
| "escapeRegExp s = s"

text \<open>
  The regular expression \<open>new RegExp('(^|\r?\n)' + source + '(?=\s*:)', 'g')\<close>, for the
  sources the model reads: a sequence of ordinary characters, each matching itself, and
  of dots, each matching one character that is not a line terminator. A source with
  another character of the syntax (\<open>\ ^ $ * + ? ( ) [ ] { } |\<close>) is outside the model:
  \<open>compileLabel\<close> gives \<open>None\<close>.
\<close>

datatype atom = Lit char | AnyChar

definition regexSyntax :: "char \<Rightarrow> bool" where
  "regexSyntax c = (c \<in> set ''^$*+?()[]{}|'' \<or> c = backslash)"

definition compileLabel :: "string \<Rightarrow> atom list option" where
  "compileLabel source =
     (if list_ex regexSyntax source then None
      else Some (map (\<lambda>c. if c = CHR ''.'' then AnyChar else Lit c) source))"

text \<open>The label at the head of a text: what follows it, when it matches.\<close>

fun matchAtoms :: "atom list \<Rightarrow> string \<Rightarrow> string option" where
  "matchAtoms [] s = Some s"
| "matchAtoms (a # as) [] = None"
| "matchAtoms (a # as) (c # cs) =
     (if (case a of Lit x \<Rightarrow> x = c | AnyChar \<Rightarrow> c \<noteq> LF \<and> c \<noteq> CR) then matchAtoms as cs
      else None)"

text \<open>The lookahead \<open>(?=\s*:)\<close>.\<close>

definition lookaheadColon :: "string \<Rightarrow> bool" where
  "lookaheadColon s = (case dropWhile js_space s of [] \<Rightarrow> False | c # rest \<Rightarrow> c = CHR '':'')"

definition matchLabelAfter :: "atom list \<Rightarrow> string \<Rightarrow> string option" where
  "matchLabelAfter pat s =
     (case matchAtoms pat s of
        None \<Rightarrow> None
      | Some rest \<Rightarrow> if lookaheadColon rest then Some rest else None)"

text \<open>
  A match of the whole expression at one position: \<open>s\<close> is the text from that position
  on and \<open>atStart\<close> tells whether the position is 0, where alone \<open>^\<close> matches (the flag
  \<open>m\<close> is not set). The first alternative is tried first. The result is the text the
  group captured and the text after the match.
\<close>

definition matchPattern :: "atom list \<Rightarrow> bool \<Rightarrow> string \<Rightarrow> (string \<times> string) option" where
  "matchPattern pat atStart s =
     (case (if atStart then matchLabelAfter pat s else None) of
        Some rest \<Rightarrow> Some ([], rest)
      | None \<Rightarrow>
          (case s of
             [] \<Rightarrow> None
           | c # t \<Rightarrow>
               if c = CR \<and> t \<noteq> [] \<and> hd t = LF
                 then map_option (Pair [CR, LF]) (matchLabelAfter pat (tl t))
               else if c = LF then map_option (Pair [LF]) (matchLabelAfter pat t)
               else None))"

text \<open>
  \<open>output.replace(pattern, (match, prefix) => prefix + displayName)\<close> with the flag \<open>g\<close>:
  the matches are found from left to right, each search starting where the last match
  ended, or one character further when that match was empty.
\<close>

function replaceMatches :: "atom list \<Rightarrow> string \<Rightarrow> bool \<Rightarrow> string \<Rightarrow> string" where
  "replaceMatches pat displayName atStart s =
     (case matchPattern pat atStart s of
        Some (captured, rest) \<Rightarrow>
          if length rest < length s
          then captured @ displayName @ replaceMatches pat displayName False rest
          else captured @ displayName
                 @ (case s of [] \<Rightarrow> [] | c # cs \<Rightarrow> c # replaceMatches pat displayName False cs)
      | None \<Rightarrow> (case s of [] \<Rightarrow> [] | c # cs \<Rightarrow> c # replaceMatches pat displayName False cs))"
  by pat_completeness auto
termination
  by (relation "measure (\<lambda>(pat, displayName, atStart, s). length s)") auto

declare replaceMatches.simps [simp del]

text \<open>
  \<open>replaceSpeakerPrefixes\<close>: the entries of the map in order, each applied to the output
  of the one before. The result is \<open>None\<close> when a label is outside the model.
\<close>

fun replaceSpeakerPrefixes :: "string \<Rightarrow> replacements \<Rightarrow> string option" where
  "replaceSpeakerPrefixes output [] = Some output"
| "replaceSpeakerPrefixes output ((label, displayName) # later) =
     (if displayName = [] \<or> displayName = label then replaceSpeakerPrefixes output later
      else (case compileLabel (escapeRegExp label) of
              None \<Rightarrow> None
            | Some pat \<Rightarrow>
                replaceSpeakerPrefixes (replaceMatches pat displayName True output) later))"

text \<open>
  \<open>applySpeakerNamesToTextFile\<close>: what it returns and the file it leaves, or \<open>None\<close>
  when a label is outside the model.
\<close>

definition applySpeakerNamesToTextFile ::
  "replacements \<Rightarrow> string option \<Rightarrow> (bool \<times> string option) option"
where
  "applySpeakerNamesToTextFile replacements file =
     (case file of
        None \<Rightarrow> Some (False, None)
      | Some original \<Rightarrow>
          (case replaceSpeakerPrefixes original replacements of
             None \<Rightarrow> None
           | Some nextContent \<Rightarrow>
               if nextContent = original then Some (False, Some original)
               else Some (True, Some nextContent)))"

subsection \<open>The rewriter of the structured export (applySpeakerNamesToJson)\<close>

















subsection \<open>Export-sync (applySpeakerNamesToExports)\<close>


record sync_result =
  updated :: bool
  files :: "string list"



subsection \<open>Cues, and the names under which export-sync is stable\<close>

text \<open>
  A label is a cue at the head of \<open>s\<close> when \<open>s\<close> starts with it and white space and a
  colon follow. \<open>noCue label lineStart s\<close>: no line of \<open>s\<close> starts with a cue of the
  label, where \<open>lineStart\<close> tells whether \<open>s\<close> itself starts a line.
\<close>

definition cueAt :: "string \<Rightarrow> string \<Rightarrow> bool" where
  "cueAt label s = (prefix label s \<and> lookaheadColon (drop (length label) s))"

fun noCue :: "string \<Rightarrow> bool \<Rightarrow> string \<Rightarrow> bool" where
  "noCue label lineStart [] = (\<not> (lineStart \<and> cueAt label []))"
| "noCue label lineStart (c # cs) =
     (\<not> (lineStart \<and> cueAt label (c # cs)) \<and> noCue label (c = LF) cs)"







text \<open>
  Two exports: one whose line breaks are mixed, with what the rewriter makes of it for
  \<open>Speaker 1\<close> renamed \<open>Alice\<close>, and one with line feeds only, with what it becomes when
  \<open>Speaker 2\<close> is renamed \<open>Bob\<close> as well.
\<close>

definition mixed_csv :: string where
  "mixed_csv = ''speaker,start,end,text'' @ [LF] @ ''Speaker 1, 0,1200,hello'' @ [LF]
       @ '' Speaker 2 ,1200,2000,hi'' @ [CR, LF]"

definition mixed_csv_out :: string where
  "mixed_csv_out = ''speaker,start,end,text'' @ [CR, LF] @ ''Alice, 0,1200,hello'' @ [CR, LF]
       @ '' Speaker 2 ,1200,2000,hi'' @ [CR, LF]"

definition ex_csv :: string where
  "ex_csv = ''speaker,start,end,text'' @ [LF] @ ''Speaker 1, 0,1200,hello'' @ [LF]
       @ '' Speaker 2 ,1200,2000,hi'' @ [LF]"

definition ex_csv_out :: string where
  "ex_csv_out = ''speaker,start,end,text'' @ [LF] @ ''Alice, 0,1200,hello'' @ [LF]
       @ '' Bob ,1200,2000,hi'' @ [LF]"

subsection \<open>Example jobs\<close>

text \<open>
  Two stand-ins for \<open>JSON.parse\<close>, each right on the texts the examples give it: the
  first knows an object with an empty list of speakers and \<open>null\<close>, the second an
  object whose status is \<open>partial\<close>; the log lines do not parse.
\<close>

definition ex_parse :: "string \<Rightarrow> json option" where
  "ex_parse s =
     (if s = ''{\"speakers\":[]}'' then Some (JObj [(''speakers'', JArr [])])
      else if s = ''null'' then Some JNull
      else None)"

definition cx_parse :: "string \<Rightarrow> json option" where
  "cx_parse s =
     (if s = ''{\"status\":\"partial\"}'' then Some (JObj [(''status'', JStr ''partial'')])
      else None)"

text \<open>
  A job whose process ends with code 0 after printing a log line and the result; the
  audio file \<open>a.wav\<close> exists and the output directory holds no result file.
\<close>

definition ex_env :: job_env where
  "ex_env =
     \<lparr>env_parse = ex_parse, env_bind_text = (\<lambda>v. None), env_bind_ms = (\<lambda>a b. None),
      env_exists = (\<lambda>p. p = ''a.wav''),
      env_process = Closed (Some 0) (''Loading model'' @ [CHR 0x0A] @ ''{\"speakers\":[]}'' @ [CHR 0x0A]) [],
      env_output_dir = ''outputs/m1'', env_result_file = None,
      env_speaker_ids = ex_rnd, env_segment_ids = ex_rnd, env_now = ''t9''\<rparr>"

text \<open>The same job when the result the process prints carries the status \<open>partial\<close>.\<close>

definition cx_env :: job_env where
  "cx_env =
     ex_env\<lparr>env_parse := cx_parse,
            env_process := Closed (Some 0)
              (''Loading model'' @ [CHR 0x0A] @ ''{\"status\":\"partial\"}'' @ [CHR 0x0A]) []\<rparr>"

text \<open>
  The first job again, with a parser that also accepts a result whose status is
  \<open>partial\<close>, as \<open>JSON.parse\<close> does; the job does not meet that text.
\<close>

definition wide_parse :: "string \<Rightarrow> json option" where
  "wide_parse s =
     (if s = ''{\"speakers\":[]}'' then Some (JObj [(''speakers'', JArr [])])
      else if s = ''{\"status\":\"partial\"}'' then Some (JObj [(''status'', JStr ''partial'')])
      else if s = ''null'' then Some JNull
      else None)"

definition wide_env :: job_env where
  "wide_env = ex_env\<lparr>env_parse := wide_parse\<rparr>"

text \<open>The same job when the process ends with code 1 after writing to both streams.\<close>

definition crash_env :: job_env where
  "crash_env = ex_env\<lparr>env_process := Closed (Some 1) ''Loading model'' ''CUDA out of memory''\<rparr>"

text \<open>
  The same job when the last line the process prints is \<open>null\<close>, after the result.
\<close>

definition null_stdout :: string where
  "null_stdout = ''{\"speakers\":[]}'' @ [CHR 0x0A] @ ''null'' @ [CHR 0x0A]"

text \<open>A store with one meeting, as \<open>createMeeting\<close> leaves it.\<close>

definition created_db :: db where
  "created_db =
     \<lparr>meetings = [\<lparr>m_id = ''m1'', m_name = ''Weekly'', m_status = ''pending'', m_created_at = ''t0'',
                    m_started_at = None, m_ended_at = None, m_audio_file_path = None\<rparr>],
      speakers = [
        \<lparr>s_id = ''u0'', s_meeting_id = ''m1'', s_label = ''Speaker 1'', s_display_name = ''Speaker 1'', s_created_at = ''t0''\<rparr>,
        \<lparr>s_id = ''u1'', s_meeting_id = ''m1'', s_label = ''Speaker 2'', s_display_name = ''Speaker 2'', s_created_at = ''t0''\<rparr>],
      segments = []\<rparr>"


text \<open>The store after the audio of the meeting was uploaded, and the row of the meeting.\<close>

definition ended_db :: db where
  "ended_db = created_db\<lparr>meetings := [\<lparr>m_id = ''m1'', m_name = ''Weekly'', m_status = ''processing'', m_created_at = ''t0'',
                    m_started_at = None, m_ended_at = Some ''t1'', m_audio_file_path = Some ''a.wav''\<rparr>]\<rparr>"

definition ended_row :: meeting_row where
  "ended_row = \<lparr>m_id = ''m1'', m_name = ''Weekly'', m_status = ''processing'', m_created_at = ''t0'',
                    m_started_at = None, m_ended_at = Some ''t1'', m_audio_file_path = Some ''a.wav''\<rparr>"

text \<open>The job whose process prints \<open>null\<close> last.\<close>

definition null_env :: job_env where
  "null_env = ex_env\<lparr>env_process := Closed (Some 0) null_stdout []\<rparr>"













section \<open>Properties\<close>

subsection \<open>Ending a meeting\<close>

lemma find_map_keyed:
  assumes "\<And>r. m_id (f r) = m_id r"
  shows "find (\<lambda>r. m_id r = i) (map (\<lambda>r. if m_id r = i then f r else r) rs)
         = map_option f (find (\<lambda>r. m_id r = i) rs)"
  using assms by (induction rs) auto

lemma meetingRow_updateMeetings:
  assumes "\<And>r. m_id (f r) = m_id r"
  shows "meetingRow (updateMeetings i f d) i = map_option f (meetingRow d i)"
  unfolding meetingRow_def updateMeetings_def using find_map_keyed[OF assms] by simp

lemma meetingRow_endMeeting:
  "meetingRow (endMeeting i a now d) i =
     map_option (\<lambda>r. r\<lparr>m_ended_at := coalesce (m_ended_at r) (Some now),
              m_audio_file_path := coalesce a (m_audio_file_path r),
              m_status := ''processing''\<rparr>) (meetingRow d i)"
  unfolding endMeeting_def by (rule meetingRow_updateMeetings) simp

text \<open>
  What \<open>endMeeting\<close> keeps. For a meeting that has a row: after a call the status is
  \<open>processing\<close>; an \<open>ended_at\<close> that was recorded before the call is kept; after the call
  \<open>ended_at\<close> is recorded and a second call leaves it as it is; and a call whose audio
  path is \<open>undefined\<close> or \<open>null\<close> leaves the stored path unchanged.
\<close>

lemma endMeeting_frame:
  assumes "meetingRow d meetingId = Some r"
  shows "\<exists>r1 r2.
      meetingRow (endMeeting meetingId audio1 now1 d) meetingId = Some r1
    \<and> meetingRow (endMeeting meetingId audio2 now2 (endMeeting meetingId audio1 now1 d)) meetingId = Some r2
    \<and> m_status r1 = ''processing'' \<and> m_status r2 = ''processing''
    \<and> (\<forall>t. m_ended_at r = Some t \<longrightarrow> m_ended_at r1 = Some t)
    \<and> m_ended_at r1 \<noteq> None \<and> m_ended_at r2 = m_ended_at r1
    \<and> (audio1 = None \<longrightarrow> m_audio_file_path r1 = m_audio_file_path r)
    \<and> (audio2 = None \<longrightarrow> m_audio_file_path r2 = m_audio_file_path r1)"
  using assms by (auto simp: meetingRow_endMeeting coalesce_def split: option.splits)


lemma endMeeting_frame_example:
  "meetingRow ex_db ''m1'' = Some ex_meeting \<and>
   (\<exists>r1 r2.
      meetingRow (endMeeting ''m1'' None ''t8'' ex_db) ''m1'' = Some r1
    \<and> meetingRow (endMeeting ''m1'' None ''t9'' (endMeeting ''m1'' None ''t8'' ex_db)) ''m1'' = Some r2
    \<and> m_status r1 = ''processing'' \<and> m_status r2 = ''processing''
    \<and> m_ended_at r1 = Some ''t2'' \<and> m_ended_at r2 = Some ''t2''
    \<and> m_audio_file_path r1 = Some ''a.wav'' \<and> m_audio_file_path r2 = Some ''a.wav'')"
proof -
  have h: "meetingRow ex_db ''m1'' = Some ex_meeting"
    by (simp add: meetingRow_def ex_db_def ex_meeting_def)
  have e: "m_ended_at ex_meeting = Some ''t2''" and a: "m_audio_file_path ex_meeting = Some ''a.wav''"
    by (simp_all add: ex_meeting_def)
  from endMeeting_frame[OF h, of None "''t8''" None "''t9''"] e a
  have "\<exists>r1 r2.
      meetingRow (endMeeting ''m1'' None ''t8'' ex_db) ''m1'' = Some r1
    \<and> meetingRow (endMeeting ''m1'' None ''t9'' (endMeeting ''m1'' None ''t8'' ex_db)) ''m1'' = Some r2
    \<and> m_status r1 = ''processing'' \<and> m_status r2 = ''processing''
    \<and> m_ended_at r1 = Some ''t2'' \<and> m_ended_at r2 = Some ''t2''
    \<and> m_audio_file_path r1 = Some ''a.wav'' \<and> m_audio_file_path r2 = Some ''a.wav''"
    by auto
  with h show ?thesis by (rule conjI)
qed

text \<open>
  Claim C9 (ending a meeting never clears a stored audio path). The meeting \<open>m1\<close> has
  its audio stored at \<open>a.wav\<close>, and \<open>/reprocess\<close> can run its job again. The route \<open>/end\<close> is
  then called with the body \<open>{"audioFilePath": ""}\<close>. The route takes the empty string for
  no audio: it logs ``No audio provided'' and sets the status \<open>failed\<close>. But \<open>endMeeting\<close> has
  bound it, since \<open>"" ?? null\<close> is the empty string and \<open>COALESCE('', audio_file_path)\<close> is
  the empty string too: the stored path is lost, and \<open>/reprocess\<close> now refuses the meeting
  and leaves the store as it is.
\<close>

theorem postEnd_empty_path:
  "meetingRow ex_db ''m1'' = Some ex_meeting
   \<and> m_audio_file_path ex_meeting = Some ''a.wav''
   \<and> meetingRow (postReprocess (\<lambda>p. True) ''m1'' ex_db) ''m1''
       = Some (ex_meeting\<lparr>m_status := ''processing''\<rparr>)
   \<and> meetingRow (endMeeting ''m1'' (Some []) ''t8'' ex_db) ''m1''
       = Some (ex_meeting\<lparr>m_status := ''processing'', m_audio_file_path := Some []\<rparr>)
   \<and> meetingRow (postEnd ''m1'' (Some []) ''t8'' ex_db) ''m1''
       = Some (ex_meeting\<lparr>m_status := ''failed'', m_audio_file_path := Some []\<rparr>)
   \<and> postReprocess (\<lambda>p. True) ''m1'' (postEnd ''m1'' (Some []) ''t8'' ex_db)
       = postEnd ''m1'' (Some []) ''t8'' ex_db"
  by (simp add: meetingRow_def ex_db_def ex_meeting_def endMeeting_def updateMeetings_def
        coalesce_def postEnd_def getMeeting_def updateMeetingStatus_def postReprocess_def Let_def)

subsection \<open>Renaming a speaker\<close>





subsection \<open>Resetting the speakers of a meeting\<close>

lemma selectSpeakers_deleteSpeakers [simp]:
  "selectSpeakers (deleteSpeakers m d) m = []"
  by (simp add: selectSpeakers_def deleteSpeakers_def Let_def)

lemma meetings_deleteSpeakers [simp]: "meetings (deleteSpeakers m d) = meetings d"
  by (simp add: deleteSpeakers_def Let_def)

lemma speakers_deleteSpeakers:
  "speakers (deleteSpeakers m d) = filter (\<lambda>s. s_meeting_id s \<noteq> m) (speakers d)"
  by (simp add: deleteSpeakers_def Let_def)

lemma insertSpeaker_ok:
  assumes "s_id row \<notin> set (map s_id (speakers d))" "s_meeting_id row \<in> set (map m_id (meetings d))"
  shows "insertSpeaker row d = Inr (d\<lparr>speakers := speakers d @ [row]\<rparr>)"
  using assms by (simp add: insertSpeaker_def)

lemma insertItems_ok:
  assumes "m \<in> set (map m_id (meetings d))"
    and "\<forall>x\<in>set xs. x \<noteq> None"
    and "distinct (map rnd [i..<i + length xs])"
    and "\<forall>k. i \<le> k \<and> k < i + length xs \<longrightarrow> rnd k \<notin> set (map s_id (speakers d))"
  shows "\<exists>d' rows. insertItems rnd m now i xs d = Inr d' \<and> meetings d' = meetings d
           \<and> segments d' = segments d
           \<and> speakers d' = speakers d @ rows \<and> length rows = length xs
           \<and> (\<forall>r\<in>set rows. s_meeting_id r = m)
           \<and> map s_id rows = map rnd [i..<i + length xs]
           \<and> map s_label rows = map (\<lambda>(k, x). case in_label (the x) of Some l \<Rightarrow> l | None \<Rightarrow> ''Speaker '' @ show_nat (k + 1)) (zip [i..<i + length xs] xs)"
  using assms
proof (induction xs arbitrary: i d)
  case Nil
  then show ?case by simp
next
  case (Cons x xs)
  from Cons.prems(2) obtain sp where x: "x = Some sp" by auto
  define label where "label = (case in_label sp of Some l \<Rightarrow> l | None \<Rightarrow> ''Speaker '' @ show_nat (i + 1))"
  define row where "row = \<lparr>s_id = rnd i, s_meeting_id = m, s_label = label,
       s_display_name = (case in_displayName sp of Some n \<Rightarrow> n | None \<Rightarrow> label), s_created_at = now\<rparr>"
  define d1 where "d1 = d\<lparr>speakers := speakers d @ [row]\<rparr>"
  have fresh: "rnd i \<notin> set (map s_id (speakers d))"
    using Cons.prems(4) by simp
  have ins: "insertSpeaker row d = Inr d1"
    unfolding d1_def by (rule insertSpeaker_ok) (use fresh Cons.prems(1) in \<open>simp_all add: row_def\<close>)
  have step: "insertItems rnd m now i (x # xs) d = insertItems rnd m now (i + 1) xs d1"
    using ins unfolding row_def label_def by (simp add: x Let_def)
  have upt: "[i..<i + length (x # xs)] = i # [Suc i..<Suc i + length xs]"
    by (simp add: upt_rec)
  have dist: "distinct (map rnd [Suc i..<Suc i + length xs])" and notin: "rnd i \<notin> rnd ` set [Suc i..<Suc i + length xs]"
    using Cons.prems(3) unfolding upt by auto
  have fresh': "\<forall>k. Suc i \<le> k \<and> k < Suc i + length xs \<longrightarrow> rnd k \<notin> set (map s_id (speakers d1))"
  proof (intro allI impI)
    fix k assume k: "Suc i \<le> k \<and> k < Suc i + length xs"
    then have "rnd k \<notin> set (map s_id (speakers d))" using Cons.prems(4) by simp
    moreover have "rnd k \<noteq> rnd i"
    proof -
      have "k \<in> set [Suc i..<Suc i + length xs]" using k by auto
      then have "rnd k \<in> rnd ` set [Suc i..<Suc i + length xs]" by (rule imageI)
      with notin show ?thesis by metis
    qed
    ultimately show "rnd k \<notin> set (map s_id (speakers d1))" by (simp add: d1_def row_def)
  qed
  have "m \<in> set (map m_id (meetings d1))" using Cons.prems(1) by (simp add: d1_def)
  moreover have "\<forall>x\<in>set xs. x \<noteq> None" using Cons.prems(2) by simp
  ultimately obtain d' rows where r: "insertItems rnd m now (Suc i) xs d1 = Inr d'" "meetings d' = meetings d1"
    "segments d' = segments d1"
    "speakers d' = speakers d1 @ rows" "length rows = length xs" "\<forall>r\<in>set rows. s_meeting_id r = m"
    "map s_id rows = map rnd [Suc i..<Suc i + length xs]"
    "map s_label rows = map (\<lambda>(k, x). case in_label (the x) of Some l \<Rightarrow> l | None \<Rightarrow> ''Speaker '' @ show_nat (k + 1)) (zip [Suc i..<Suc i + length xs] xs)"
    using Cons.IH[of d1 "Suc i"] dist fresh' by blast
  have lab: "s_label row = (case in_label (the x) of Some l \<Rightarrow> l | None \<Rightarrow> ''Speaker '' @ show_nat (i + 1))"
    by (simp add: row_def label_def x)
  have rid: "s_id row = rnd i" and rm: "s_meeting_id row = m" by (simp_all add: row_def)
  have c1: "insertItems rnd m now i (x # xs) d = Inr d'"
    using step r(1) by (simp only: Suc_eq_plus1)
  have c2: "meetings d' = meetings d" "segments d' = segments d"
    using r(2,3) by (simp_all add: d1_def)
  have c4: "speakers d' = speakers d @ (row # rows)" using r(4) by (simp add: d1_def)
  have c5: "length (row # rows) = length (x # xs)" using r(5) by simp
  have c6: "\<forall>r\<in>set (row # rows). s_meeting_id r = m" using r(6) rm by simp
  have c7: "map s_id (row # rows) = map rnd [i..<i + length (x # xs)]"
    unfolding upt by (simp only: list.map rid r(7))
  have c8: "map s_label (row # rows) = map (\<lambda>(k, x). case in_label (the x) of Some l \<Rightarrow> l | None \<Rightarrow> ''Speaker '' @ show_nat (k + 1)) (zip [i..<i + length (x # xs)] (x # xs))"
    unfolding upt by (simp only: list.map zip_Cons_Cons case_prod_conv lab r(8))
  from c1 c2 c4 c5 c6 c7 c8 have "insertItems rnd m now i (x # xs) d = Inr d' \<and> meetings d' = meetings d
           \<and> segments d' = segments d
           \<and> speakers d' = speakers d @ (row # rows) \<and> length (row # rows) = length (x # xs)
           \<and> (\<forall>r\<in>set (row # rows). s_meeting_id r = m)
           \<and> map s_id (row # rows) = map rnd [i..<i + length (x # xs)]
           \<and> map s_label (row # rows) = map (\<lambda>(k, x). case in_label (the x) of Some l \<Rightarrow> l | None \<Rightarrow> ''Speaker '' @ show_nat (k + 1)) (zip [i..<i + length (x # xs)] (x # xs))"
    by (intro conjI)
  then show ?case by blast
qed


lemma countLoop_step:
  assumes "of_nat i \<le> c"
    and "insertSpeaker \<lparr>s_id = rnd (i - 1), s_meeting_id = m, s_label = ''Speaker '' @ show_nat i,
                    s_display_name = ''Speaker '' @ show_nat i, s_created_at = now\<rparr> d = Inr d'"
  shows "countLoop rnd m now c i d = countLoop rnd m now c (i + 1) d'"
  using assms by (subst countLoop.simps) (simp add: Let_def)

lemma countLoop_stop:
  assumes "\<not> of_nat i \<le> c"
  shows "countLoop rnd m now c i d = Inr d"
  using assms by (subst countLoop.simps) simp

lemma countLoop_two:
  assumes "m \<in> set (map m_id (meetings d))"
    and "rnd 0 \<noteq> rnd 1"
    and "rnd 0 \<notin> set (map s_id (speakers d))" "rnd 1 \<notin> set (map s_id (speakers d))"
  shows "countLoop rnd m now 2 1 d =
     Inr (d\<lparr>speakers := speakers d @
        [\<lparr>s_id = rnd 0, s_meeting_id = m, s_label = ''Speaker 1'', s_display_name = ''Speaker 1'', s_created_at = now\<rparr>,
         \<lparr>s_id = rnd 1, s_meeting_id = m, s_label = ''Speaker 2'', s_display_name = ''Speaker 2'', s_created_at = now\<rparr>]\<rparr>)"
proof -
  have s1: "show_nat (Suc 0) = ''1''" and s2: "show_nat 2 = ''2''"
    by (simp_all add: show_nat.simps digit_char_def)
  define r1 where "r1 = \<lparr>s_id = rnd 0, s_meeting_id = m, s_label = ''Speaker 1'', s_display_name = ''Speaker 1'', s_created_at = now\<rparr>"
  define r2 where "r2 = \<lparr>s_id = rnd 1, s_meeting_id = m, s_label = ''Speaker 2'', s_display_name = ''Speaker 2'', s_created_at = now\<rparr>"
  define d1 where "d1 = d\<lparr>speakers := speakers d @ [r1]\<rparr>"
  define d2 where "d2 = d1\<lparr>speakers := speakers d1 @ [r2]\<rparr>"
  have i1: "insertSpeaker r1 d = Inr d1"
    using assms by (simp add: insertSpeaker_def r1_def d1_def)
  have i2: "insertSpeaker r2 d1 = Inr d2"
    using assms by (simp add: insertSpeaker_def r1_def r2_def d1_def d2_def)
  have "countLoop rnd m now 2 1 d = countLoop rnd m now 2 (1 + 1) d1"
  proof (rule countLoop_step)
    show "rat_of_nat 1 \<le> 2" by simp
    show "insertSpeaker \<lparr>s_id = rnd (1 - 1), s_meeting_id = m, s_label = ''Speaker '' @ show_nat 1,
                    s_display_name = ''Speaker '' @ show_nat 1, s_created_at = now\<rparr> d = Inr d1"
      using i1 by (simp add: s1 r1_def)
  qed
  also have "\<dots> = countLoop rnd m now 2 2 d1" by (simp only: one_add_one)
  also have "\<dots> = countLoop rnd m now 2 (2 + 1) d2"
  proof (rule countLoop_step)
    show "rat_of_nat 2 \<le> 2" by simp
    show "insertSpeaker \<lparr>s_id = rnd (2 - 1), s_meeting_id = m, s_label = ''Speaker '' @ show_nat 2,
                    s_display_name = ''Speaker '' @ show_nat 2, s_created_at = now\<rparr> d1 = Inr d2"
      using i2 by (simp add: s2 r2_def)
  qed
  also have "\<dots> = Inr d2"
    by (rule countLoop_stop) simp
  finally show ?thesis by (simp add: d2_def d1_def r1_def r2_def)
qed


lemma show_nat_digits:
  "show_nat 0 = ''0''" "show_nat 1 = ''1''" "show_nat (Suc 0) = ''1''" "show_nat 2 = ''2''"
  "show_nat (Suc (Suc 0)) = ''2''"
  by (simp_all add: show_nat.simps digit_char_def numeral_2_eq_2[symmetric])

text \<open>
  C10. When the count given to \<open>resetSpeakersInternal\<close> is not a finite number greater
  than zero (\<open>NaN\<close> for a value that is not numeric, an infinity, zero or a negative
  number), the meeting is left with exactly two speakers, \<open>Speaker 1\<close> and \<open>Speaker 2\<close>,
  each named as it is labelled; not with the single speaker an empty list gives. The
  meeting has a row, and the two identifiers drawn are new.
\<close>

theorem resetSpeakers_bad_count:
  assumes "\<not> (\<exists>q. n = Finite q \<and> 0 < q)"
    and "meetingId \<in> set (map m_id (meetings d))"
    and "rnd 0 \<noteq> rnd 1"
    and "\<forall>s\<in>set (speakers d). s_meeting_id s \<noteq> meetingId \<longrightarrow> s_id s \<noteq> rnd 0 \<and> s_id s \<noteq> rnd 1"
  shows "\<exists>d'. resetSpeakersInternal rnd meetingId (Count n) now d = Inr d'
          \<and> selectSpeakers d' meetingId =
        [\<lparr>s_id = rnd 0, s_meeting_id = meetingId, s_label = ''Speaker 1'', s_display_name = ''Speaker 1'', s_created_at = now\<rparr>,
         \<lparr>s_id = rnd 1, s_meeting_id = meetingId, s_label = ''Speaker 2'', s_display_name = ''Speaker 2'', s_created_at = now\<rparr>]"
proof -
  define d1 where "d1 = deleteSpeakers meetingId d"
  have safe: "(let count = (case n of Finite q \<Rightarrow> q | _ \<Rightarrow> 0);
                  safeCount = (if count > 0 then count else 2)
              in countLoop rnd meetingId now safeCount 1 d1) = countLoop rnd meetingId now 2 1 d1"
    using assms(1) by (cases n) (auto simp: Let_def)
  have m: "meetingId \<in> set (map m_id (meetings d1))" using assms(2) by (simp add: d1_def)
  have f0: "rnd 0 \<notin> set (map s_id (speakers d1))" and f1: "rnd 1 \<notin> set (map s_id (speakers d1))"
    using assms(4) by (auto simp: d1_def speakers_deleteSpeakers)
  have sel: "selectSpeakers d1 meetingId = []" by (simp add: d1_def)
  have "resetSpeakersInternal rnd meetingId (Count n) now d = countLoop rnd meetingId now 2 1 d1"
    using safe by (simp add: resetSpeakersInternal_def d1_def)
  then show ?thesis
    using countLoop_two[OF m assms(3) f0 f1, of now] sel
    by (simp add: selectSpeakers_def)
qed


theorem resetSpeakers_bad_count_witness:
  "\<not> (\<exists>q. Finite (- 3) = Finite q \<and> 0 < q) \<and> ''m1'' \<in> set (map m_id (meetings ex_db))
   \<and> ex_rnd 0 \<noteq> ex_rnd 1
   \<and> (\<exists>d'. resetSpeakersInternal ex_rnd ''m1'' (Count (Finite (- 3))) ''t9'' ex_db = Inr d'
          \<and> selectSpeakers d' ''m1'' =
        [\<lparr>s_id = ''u0'', s_meeting_id = ''m1'', s_label = ''Speaker 1'', s_display_name = ''Speaker 1'', s_created_at = ''t9''\<rparr>,
         \<lparr>s_id = ''u1'', s_meeting_id = ''m1'', s_label = ''Speaker 2'', s_display_name = ''Speaker 2'', s_created_at = ''t9''\<rparr>])"
proof -
  have h1: "\<not> (\<exists>q. Finite (- 3) = Finite q \<and> 0 < q)" by simp
  have h2: "''m1'' \<in> set (map m_id (meetings ex_db))" by (simp add: ex_db_def ex_meeting_def)
  have h3: "ex_rnd 0 \<noteq> ex_rnd 1" by (simp add: ex_rnd_def show_nat_digits)
  have h4: "\<forall>s\<in>set (speakers ex_db). s_meeting_id s \<noteq> ''m1'' \<longrightarrow> s_id s \<noteq> ex_rnd 0 \<and> s_id s \<noteq> ex_rnd 1"
    by (simp add: ex_db_def ex_rnd_def show_nat_digits)
  have u: "ex_rnd 0 = ''u0''" "ex_rnd 1 = ''u1''" by (simp_all add: ex_rnd_def show_nat_digits)
  from resetSpeakers_bad_count[OF h1 h2 h3 h4, of "''t9''"]
  have "\<exists>d'. resetSpeakersInternal ex_rnd ''m1'' (Count (Finite (- 3))) ''t9'' ex_db = Inr d'
          \<and> selectSpeakers d' ''m1'' =
        [\<lparr>s_id = ''u0'', s_meeting_id = ''m1'', s_label = ''Speaker 1'', s_display_name = ''Speaker 1'', s_created_at = ''t9''\<rparr>,
         \<lparr>s_id = ''u1'', s_meeting_id = ''m1'', s_label = ''Speaker 2'', s_display_name = ''Speaker 2'', s_created_at = ''t9''\<rparr>]"
    unfolding u .
  with h1 h2 h3 show ?thesis by (intro conjI)
qed

text \<open>
  C7. Resetting the speakers of a meeting from a list. An empty list leaves the meeting
  with exactly one speaker, labelled \<open>Speaker 1\<close>. A list of \<open>N\<close> entries, each an object
  with a label and an optional display name, leaves it with exactly \<open>N\<close> speakers, whose
  labels are the entries' labels in order; nothing is asked of the display names, which
  may repeat. The meeting has a row, and the identifiers drawn are new.
\<close>

theorem resetSpeakers_list:
  fixes es :: "(string \<times> string option) list"
  defines "xs \<equiv> map (\<lambda>(l, n). Some \<lparr>in_label = Some l, in_displayName = n\<rparr>) es"
  assumes "meetingId \<in> set (map m_id (meetings d))"
    and "distinct (map rnd [0..<max 1 (length es)])"
    and "\<forall>s\<in>set (speakers d). \<forall>k<max 1 (length es). s_meeting_id s \<noteq> meetingId \<longrightarrow> s_id s \<noteq> rnd k"
  shows "\<exists>d'. resetSpeakersInternal rnd meetingId (SpeakerList xs) now d = Inr d'
          \<and> (if es = [] then map s_label (selectSpeakers d' meetingId) = [''Speaker 1'']
               else length (selectSpeakers d' meetingId) = length es
                  \<and> map s_label (selectSpeakers d' meetingId) = map fst es)"
proof -
  define items where "items = (if xs \<noteq> [] then xs
                           else [Some \<lparr>in_label = Some ''Speaker 1'', in_displayName = None\<rparr>])"
  define d1 where "d1 = deleteSpeakers meetingId d"
  have len: "length items = max 1 (length es)"
    by (cases es) (simp_all add: items_def xs_def)
  have objs: "\<forall>x\<in>set items. x \<noteq> None"
    by (auto simp: items_def xs_def)
  have m: "meetingId \<in> set (map m_id (meetings d1))" using assms(2) by (simp add: d1_def)
  have dist: "distinct (map rnd [0..<0 + length items])" using assms(3) len by simp
  have fresh: "\<forall>k. 0 \<le> k \<and> k < 0 + length items \<longrightarrow> rnd k \<notin> set (map s_id (speakers d1))"
    using assms(4) len by (fastforce simp: d1_def speakers_deleteSpeakers)
  obtain d' rows where r: "insertItems rnd meetingId now 0 items d1 = Inr d'"
    "speakers d' = speakers d1 @ rows" "length rows = length items" "\<forall>r\<in>set rows. s_meeting_id r = meetingId"
    "map s_label rows = map (\<lambda>(k, x). case in_label (the x) of Some l \<Rightarrow> l | None \<Rightarrow> ''Speaker '' @ show_nat (k + 1)) (zip [0..<0 + length items] items)"
    using insertItems_ok[OF m objs dist fresh, of now] by blast
  have sel: "selectSpeakers d' meetingId = rows"
  proof -
    have "filter (\<lambda>s. s_meeting_id s = meetingId) (speakers d1) = []"
      using selectSpeakers_deleteSpeakers[of meetingId d] by (simp add: selectSpeakers_def d1_def)
    moreover have "filter (\<lambda>s. s_meeting_id s = meetingId) rows = rows"
      using r(4) by (simp add: filter_id_conv)
    ultimately show ?thesis by (simp add: selectSpeakers_def r(2))
  qed
  have labels: "map s_label rows = map (\<lambda>x. case in_label (the x) of Some l \<Rightarrow> l | None \<Rightarrow> []) items"
    if "\<forall>x\<in>set items. \<exists>sp l. x = Some sp \<and> in_label sp = Some l" for items' :: "speaker_input option list"
  proof -
    have "map (\<lambda>(k, x). case in_label (the x) of Some l \<Rightarrow> l | None \<Rightarrow> ''Speaker '' @ show_nat (k + 1)) (zip [0..<0 + length items] items)
        = map (\<lambda>(k, x). case in_label (the x) of Some l \<Rightarrow> l | None \<Rightarrow> []) (zip [0..<0 + length items] items)"
      using that by (intro map_cong refl) (auto dest!: set_zip_rightD)
    also have "\<dots> = map ((\<lambda>x. case in_label (the x) of Some l \<Rightarrow> l | None \<Rightarrow> []) \<circ> snd) (zip [0..<0 + length items] items)"
      by (intro map_cong refl) auto
    also have "\<dots> = map (\<lambda>x. case in_label (the x) of Some l \<Rightarrow> l | None \<Rightarrow> []) items"
      by (simp flip: map_map)
    finally show ?thesis using r(5) by simp
  qed
  have named: "\<forall>x\<in>set items. \<exists>sp l. x = Some sp \<and> in_label sp = Some l"
    by (auto simp: items_def xs_def)
  have res: "resetSpeakersInternal rnd meetingId (SpeakerList xs) now d = Inr d'"
    using r(1) by (simp add: resetSpeakersInternal_def items_def d1_def Let_def)
  show ?thesis
  proof (cases "es = []")
    case True
    then have "items = [Some \<lparr>in_label = Some ''Speaker 1'', in_displayName = None\<rparr>]"
      by (simp add: items_def xs_def)
    then show ?thesis using res sel labels[OF named] True by simp
  next
    case False
    then have "items = xs" by (simp add: items_def xs_def)
    then have "map s_label rows = map fst es"
      using labels[OF named] by (simp add: xs_def comp_def case_prod_beta)
    then show ?thesis using res sel r(3) len False by (cases es) auto
  qed
qed

theorem resetSpeakers_list_witness:
  "''m1'' \<in> set (map m_id (meetings ex_db))
   \<and> distinct (map ex_rnd [0..<2])
   \<and> (\<exists>d'. resetSpeakersInternal ex_rnd ''m1''
             (SpeakerList [Some \<lparr>in_label = Some ''SPEAKER_00'', in_displayName = Some ''Sam''\<rparr>,
                           Some \<lparr>in_label = Some ''SPEAKER_01'', in_displayName = Some ''Sam''\<rparr>]) ''t9'' ex_db = Inr d'
          \<and> length (selectSpeakers d' ''m1'') = 2
          \<and> map s_label (selectSpeakers d' ''m1'') = [''SPEAKER_00'', ''SPEAKER_01''])
   \<and> (\<exists>d'. resetSpeakersInternal ex_rnd ''m1'' (SpeakerList []) ''t9'' ex_db = Inr d'
          \<and> map s_label (selectSpeakers d' ''m1'') = [''Speaker 1''])"
proof -
  have h1: "''m1'' \<in> set (map m_id (meetings ex_db))" by (simp add: ex_db_def ex_meeting_def)
  have u: "ex_rnd 0 = ''u0''" "ex_rnd 1 = ''u1''" "ex_rnd (Suc 0) = ''u1''"
    by (simp_all add: ex_rnd_def show_nat_digits)
  have upt2: "[0..<2] = [0, 1]" by (simp add: upt_rec)
  have h2: "distinct (map ex_rnd [0..<2])" by (simp add: upt2 u)
  have dist2: "distinct (map ex_rnd [0..<max 1 (length [(''SPEAKER_00'', Some ''Sam''), (''SPEAKER_01'', Some ''Sam'')])])"
    by (simp add: upt2 u)
  have dist1: "distinct (map ex_rnd [0..<max 1 (length ([] :: (string \<times> string option) list))])"
    by simp
  have fresh2: "\<forall>s\<in>set (speakers ex_db).
      \<forall>k<max 1 (length [(''SPEAKER_00'', Some ''Sam''), (''SPEAKER_01'', Some ''Sam'')]).
        s_meeting_id s \<noteq> ''m1'' \<longrightarrow> s_id s \<noteq> ex_rnd k"
    by (simp add: ex_db_def ex_rnd_def)
  have fresh1: "\<forall>s\<in>set (speakers ex_db).
      \<forall>k<max 1 (length ([] :: (string \<times> string option) list)).
        s_meeting_id s \<noteq> ''m1'' \<longrightarrow> s_id s \<noteq> ex_rnd k"
    by (simp add: ex_db_def ex_rnd_def)
  have a: "\<exists>d'. resetSpeakersInternal ex_rnd ''m1''
             (SpeakerList [Some \<lparr>in_label = Some ''SPEAKER_00'', in_displayName = Some ''Sam''\<rparr>,
                           Some \<lparr>in_label = Some ''SPEAKER_01'', in_displayName = Some ''Sam''\<rparr>]) ''t9'' ex_db = Inr d'
          \<and> length (selectSpeakers d' ''m1'') = 2
          \<and> map s_label (selectSpeakers d' ''m1'') = [''SPEAKER_00'', ''SPEAKER_01'']"
    using resetSpeakers_list[OF h1 dist2 fresh2, of "''t9''"] by (simp add: numeral_2_eq_2)
  have b: "\<exists>d'. resetSpeakersInternal ex_rnd ''m1'' (SpeakerList []) ''t9'' ex_db = Inr d'
          \<and> map s_label (selectSpeakers d' ''m1'') = [''Speaker 1'']"
    using resetSpeakers_list[OF h1 dist1 fresh1, of "''t9''"] by simp
  from h1 h2 a b show ?thesis by (intro conjI)
qed

subsection \<open>The job handler\<close>

lemma insertSpeaker_meetings: "insertSpeaker row d = Inr d' \<Longrightarrow> meetings d' = meetings d"
  by (auto simp: insertSpeaker_def split: if_splits)

lemma insertItems_meetings: "insertItems rnd m now i xs d = Inr d' \<Longrightarrow> meetings d' = meetings d"
proof (induction xs arbitrary: i d)
  case Nil
  then show ?case by simp
next
  case (Cons x xs)
  then show ?case
    by (auto simp: Let_def split: option.splits sum.splits dest: insertSpeaker_meetings)
qed

lemma countLoop_meetings: "countLoop rnd m now c i d = Inr d' \<Longrightarrow> meetings d' = meetings d"
proof (induction rnd m now c i d rule: countLoop.induct)
  case (1 rnd m now c i d)
  show ?case
  proof (cases "of_nat i \<le> c")
    case True
    with "1.prems" obtain d1 where
      ins: "insertSpeaker \<lparr>s_id = rnd (i - 1), s_meeting_id = m, s_label = ''Speaker '' @ show_nat i,
                    s_display_name = ''Speaker '' @ show_nat i, s_created_at = now\<rparr> d = Inr d1"
      and rest: "countLoop rnd m now c (i + 1) d1 = Inr d'"
      by (subst (asm) countLoop.simps) (auto simp: Let_def split: sum.splits)
    have "meetings d' = meetings d1"
      using "1.IH"[OF True refl ins rest] .
    then show ?thesis using insertSpeaker_meetings[OF ins] by simp
  next
    case False
    with "1.prems" show ?thesis by (subst (asm) countLoop.simps) simp
  qed
qed

lemma resetSpeakersInternal_meetings:
  "resetSpeakersInternal rnd m arg now d = Inr d' \<Longrightarrow> meetings d' = meetings d"
  unfolding resetSpeakersInternal_def Let_def
  by (cases arg) (auto dest!: insertItems_meetings countLoop_meetings simp: deleteSpeakers_def Let_def)

lemma insertSegment_meetings: "insertSegment row d = Inr d' \<Longrightarrow> meetings d' = meetings d"
  by (auto simp: insertSegment_def split: if_splits)

lemma insertSegments_meetings: "insertSegments rnd m now i xs d = Inr d' \<Longrightarrow> meetings d' = meetings d"
proof (induction xs arbitrary: i d)
  case Nil
  then show ?case by simp
next
  case (Cons x xs)
  then show ?case
    by (auto split: sum.splits dest: insertSegment_meetings)
qed

lemma storeSegments_meetings: "storeSegments rnd m segs now d = Inr d' \<Longrightarrow> meetings d' = meetings d"
  unfolding storeSegments_def by (auto dest!: insertSegments_meetings)

lemma persistPayload_meetings: "meetings (fst (persistPayload env m payload d)) = meetings d"
  unfolding persistPayload_def Let_def resetSpeakers_def bindE_def
  by (auto split: option.splits json.splits list.splits sum.splits
        dest!: resetSpeakersInternal_meetings storeSegments_meetings)

lemma runJob_meetings: "meetings (fst (runJob env m a d)) = meetings d"
  unfolding runJob_def
  using persistPayload_meetings[of env m _ d]
  by (auto split: option.splits sum.splits prod.splits) (metis fst_conv)+

lemma scanLinesBack_parsed: "scanLinesBack parse ls = Some v \<Longrightarrow> \<exists>src. parse src = Some v"
  by (induction ls) (auto split: option.splits)

lemma scanStdout_parsed: "scanStdout parse out = Some v \<Longrightarrow> \<exists>src. parse src = Some v"
  unfolding scanStdout_def Let_def by (auto split: if_splits dest: scanLinesBack_parsed)

lemma resolvePayload_parsed:
  assumes "resolvePayload parse out file = Inr v"
  shows "\<exists>src. parse src = Some v"
proof (cases "falsy (scanStdout parse out)")
  case True
  with assms show ?thesis
    unfolding resolvePayload_def Let_def
    by (auto simp: falsy_def split: option.splits if_splits)
next
  case False
  with assms have "scanStdout parse out = Some v"
    unfolding resolvePayload_def Let_def by (auto split: option.splits if_splits)
  then show ?thesis by (rule scanStdout_parsed)
qed

lemma runJob_cases:
  obtains (error) e where "snd (runJob env m a d) = Inl e"
  | (payload) p result payload where "a = Some p" "p \<noteq> []" "env_exists env p"
      "runDiarization (env_exists env) (env_process env) (env_output_dir env) (Some p) = Inr result"
      "resolvePayload (env_parse env) (stdout result) (env_result_file env) = Inr payload"
      "snd (persistPayload env m payload d) = None"
      "runJob env m a d = (fst (persistPayload env m payload d), Inr payload)"
proof (cases "snd (runJob env m a d)")
  case (Inl e)
  then show ?thesis by (rule error)
next
  case (Inr v)
  from Inr obtain p where a: "a = Some p" and p: "p \<noteq> []" and ex: "env_exists env p"
    unfolding runJob_def by (cases a) (auto split: if_splits)
  from Inr a p ex obtain result where
    run: "runDiarization (env_exists env) (env_process env) (env_output_dir env) (Some p) = Inr result"
    unfolding runJob_def
    by (cases "runDiarization (env_exists env) (env_process env) (env_output_dir env) (Some p)") auto
  from Inr a p ex run obtain payload where
    res: "resolvePayload (env_parse env) (stdout result) (env_result_file env) = Inr payload"
    unfolding runJob_def
    by (cases "resolvePayload (env_parse env) (stdout result) (env_result_file env)") auto
  obtain d' eo where pp: "persistPayload env m payload d = (d', eo)"
    by (cases "persistPayload env m payload d")
  from Inr a p ex run res pp have eo: "eo = None"
    unfolding runJob_def by (cases eo) auto
  have "runJob env m a d = (fst (persistPayload env m payload d), Inr payload)"
    unfolding runJob_def using a p ex run res pp eo by simp
  moreover have "snd (persistPayload env m payload d) = None" using pp eo by simp
  ultimately show ?thesis using a p ex run res by (rule_tac payload) auto
qed

lemma runJob_payload_parsed:
  assumes "snd (runJob env m a d) = Inr payload"
  shows "\<exists>src. env_parse env src = Some payload"
proof (cases rule: runJob_cases[of env m a d])
  case (error e)
  with assms show ?thesis by simp
next
  case (payload p result payload')
  then have "payload' = payload" using assms by simp
  then show ?thesis using resolvePayload_parsed[OF payload(5)] by simp
qed

lemma runJob_payload_resolved:
  assumes "snd (runJob env m a d) = Inr payload"
  shows "\<exists>out err. env_process env = Closed (Some 0) out err
           \<and> resolvePayload (env_parse env) out (env_result_file env) = Inr payload"
proof (cases rule: runJob_cases[of env m a d])
  case (error e)
  with assms show ?thesis by simp
next
  case (payload p result payload')
  then have eq: "payload' = payload" using assms by simp
  from payload(4) obtain out err where
    "env_process env = Closed (Some 0) out err" "stdout result = out"
    unfolding runDiarization_def
    by (auto split: if_splits proc_outcome.splits)
  then show ?thesis using payload(5) eq by auto
qed

lemma meetingRow_updateMeetingStatus:
  "meetingRow (updateMeetingStatus i s d) i = map_option (\<lambda>r. r\<lparr>m_status := s\<rparr>) (meetingRow d i)"
  unfolding updateMeetingStatus_def by (rule meetingRow_updateMeetings) simp

lemma handleDiarization_status:
  assumes "meetingRow d m = Some r"
  shows "meetingRow (handleDiarization env m a d) m =
     Some (r\<lparr>m_status := (case snd (runJob env m a d) of Inl e \<Rightarrow> ''failed'' | Inr payload \<Rightarrow> nextStatus payload)\<rparr>)"
proof -
  obtain d' res where rj: "runJob env m a d = (d', res)" by (cases "runJob env m a d")
  have "meetings d' = meetings d" using runJob_meetings[of env m a d] rj by simp
  then have row: "meetingRow d' m = Some r" using assms by (simp add: meetingRow_def)
  have hd: "handleDiarization env m a d = updateMeetingStatus m (case res of Inl e \<Rightarrow> ''failed'' | Inr payload \<Rightarrow> nextStatus payload) d'"
    unfolding handleDiarization_def rj by (cases res) simp_all
  show ?thesis
    unfolding hd rj by (simp add: meetingRow_updateMeetingStatus row)
qed

lemma statuses_updateMeetings:
  "m_status ` set (meetings (updateMeetings i f d)) \<subseteq> m_status ` set (meetings d) \<union> {m_status (f r) | r. r \<in> set (meetings d)}"
  unfolding updateMeetings_def by auto

lemma statuses_updateMeetingStatus:
  "m_status ` set (meetings (updateMeetingStatus i s d)) \<subseteq> insert s (m_status ` set (meetings d))"
  unfolding updateMeetingStatus_def updateMeetings_def by auto

lemma statuses_handleDiarization:
  "m_status ` set (meetings (handleDiarization env m a d))
     \<subseteq> m_status ` set (meetings d) \<union> {''failed''}
         \<union> {nextStatus v | v out err. env_process env = Closed (Some 0) out err
               \<and> resolvePayload (env_parse env) out (env_result_file env) = Inr v}"
proof -
  obtain d' res where rj: "runJob env m a d = (d', res)" by (cases "runJob env m a d")
  have md: "meetings d' = meetings d" using runJob_meetings[of env m a d] rj by simp
  show ?thesis
  proof (cases res)
    case (Inl e)
    then show ?thesis
      unfolding handleDiarization_def rj using statuses_updateMeetingStatus[of m "''failed''" d'] md by auto
  next
    case (Inr payload)
    then obtain out err where "env_process env = Closed (Some 0) out err"
      "resolvePayload (env_parse env) out (env_result_file env) = Inr payload"
      using runJob_payload_resolved[of env m a d payload] rj by auto
    then show ?thesis
      unfolding handleDiarization_def rj Inr
      using statuses_updateMeetingStatus[of m "nextStatus payload" d'] md by auto
  qed
qed

lemma statuses_keep:
  assumes "\<And>r. m_status (f r) = m_status r"
  shows "m_status ` set (meetings (updateMeetings i f d)) \<subseteq> m_status ` set (meetings d)"
  unfolding updateMeetings_def using assms by auto

lemma statuses_endMeeting:
  "m_status ` set (meetings (endMeeting i a now d)) \<subseteq> insert ''processing'' (m_status ` set (meetings d))"
  unfolding endMeeting_def updateMeetings_def by auto

lemma lifecycle_members:
  "''pending'' \<in> lifecycle" "''processing'' \<in> lifecycle" "''done'' \<in> lifecycle" "''failed'' \<in> lifecycle"
  by (simp_all add: lifecycle_def)

lemma statuses_createMeeting:
  assumes "createMeeting i rnd name n now d = Inr d'"
  shows "m_status ` set (meetings d') \<subseteq> insert ''pending'' (m_status ` set (meetings d))"
proof -
  from assms obtain d1 where
    ins: "insertMeeting \<lparr>m_id = i, m_name = name, m_status = ''pending'', m_created_at = now,
               m_started_at = None, m_ended_at = None, m_audio_file_path = None\<rparr> d = Inr d1"
    and rs: "resetSpeakersInternal rnd i (Count n) now d1 = Inr d'"
    unfolding createMeeting_def bindE_def by (auto split: sum.splits)
  have "meetings d' = meetings d1" using rs by (rule resetSpeakersInternal_meetings)
  moreover have "meetings d1 = meetings d @ [\<lparr>m_id = i, m_name = name, m_status = ''pending'', m_created_at = now,
               m_started_at = None, m_ended_at = None, m_audio_file_path = None\<rparr>]"
    using ins by (auto simp: insertMeeting_def split: if_splits)
  ultimately show ?thesis by auto
qed

lemma statuses_postEnd:
  "m_status ` set (meetings (postEnd i a now d))
     \<subseteq> insert ''failed'' (insert ''processing'' (m_status ` set (meetings d)))"
proof -
  have "m_status ` set (meetings (updateMeetingStatus i ''failed'' (endMeeting i a now d)))
     \<subseteq> insert ''failed'' (insert ''processing'' (m_status ` set (meetings d)))"
    using statuses_updateMeetingStatus[of i "''failed''" "endMeeting i a now d"]
      statuses_endMeeting[of i a now d] by blast
  moreover have "m_status ` set (meetings (endMeeting i a now d))
     \<subseteq> insert ''failed'' (insert ''processing'' (m_status ` set (meetings d)))"
    using statuses_endMeeting[of i a now d] by blast
  ultimately show ?thesis
    unfolding postEnd_def Let_def by (simp split: option.splits) blast
qed

lemma statuses_postAudio:
  "m_status ` set (meetings (postAudio i p now d)) \<subseteq> insert ''processing'' (m_status ` set (meetings d))"
  unfolding postAudio_def using statuses_endMeeting[of i "Some p" now d]
  by (simp split: option.splits) blast

lemma statuses_postReprocess:
  "m_status ` set (meetings (postReprocess ex i d)) \<subseteq> insert ''processing'' (m_status ` set (meetings d))"
  unfolding postReprocess_def using statuses_updateMeetingStatus[of i "''processing''" d]
  by (simp split: option.splits) blast

lemma meetings_patchSpeaker: "meetings (snd (patchSpeaker i sp n d)) = meetings d"
  by (simp add: patchSpeaker_def renameSpeaker_def Let_def split: option.splits)

lemma addSpeaker_meetings: "addSpeaker newId m n now d = Inr d' \<Longrightarrow> meetings d' = meetings d"
  unfolding addSpeaker_def Let_def by (auto split: option.splits dest: insertSpeaker_meetings)

lemma sub_lifecycle:
  assumes "A \<subseteq> insert s B" "B \<subseteq> lifecycle" "s \<in> lifecycle"
  shows "A \<subseteq> lifecycle"
  using assms by auto

lemma reachable_statuses:
  assumes ok: "\<forall>env\<in>E. \<forall>out err v. env_process env = Closed (Some 0) out err
                 \<and> resolvePayload (env_parse env) out (env_result_file env) = Inr v
                 \<longrightarrow> nextStatus v \<in> lifecycle"
    and "reachable E d"
  shows "m_status ` set (meetings d) \<subseteq> lifecycle"
  using assms(2)
proof (induction rule: reachable.induct)
  case r_init
  show ?case by simp
next
  case (r_create d meetingId rnd name n now d')
  show ?case
    by (rule sub_lifecycle[OF statuses_createMeeting[OF r_create.hyps(2)] r_create.IH lifecycle_members(1)])
next
  case (r_update d meetingId name)
  have "m_status ` set (meetings (updateMeeting meetingId name d)) \<subseteq> m_status ` set (meetings d)"
    unfolding updateMeeting_def by (rule statuses_keep) simp
  with r_update.IH show ?case by (rule order_trans[rotated])
next
  case (r_start d meetingId now)
  have "m_status ` set (meetings (startMeeting meetingId now d)) \<subseteq> m_status ` set (meetings d)"
    unfolding startMeeting_def by (rule statuses_keep) simp
  with r_start.IH show ?case by (rule order_trans[rotated])
next
  case (r_end d meetingId audioFilePath now)
  have "insert ''processing'' (m_status ` set (meetings d)) \<subseteq> lifecycle"
    using r_end.IH lifecycle_members(2) by simp
  then show ?case
    by (rule sub_lifecycle[OF statuses_postEnd _ lifecycle_members(4)])
next
  case (r_audio d meetingId audioPath now)
  show ?case
    by (rule sub_lifecycle[OF statuses_postAudio r_audio.IH lifecycle_members(2)])
next
  case (r_reprocess d ex meetingId)
  show ?case
    by (rule sub_lifecycle[OF statuses_postReprocess r_reprocess.IH lifecycle_members(2)])
next
  case (r_job d env meetingId audioPath)
  define P where "P = {nextStatus v | v out err. env_process env = Closed (Some 0) out err
               \<and> resolvePayload (env_parse env) out (env_result_file env) = Inr v}"
  have a: "P \<subseteq> lifecycle"
    unfolding P_def using ok r_job.hyps(2) by blast
  have "m_status ` set (meetings d) \<union> {''failed''} \<union> P \<subseteq> lifecycle"
    using a r_job.IH lifecycle_members(4) by simp
  with statuses_handleDiarization[of env meetingId audioPath d] show ?case
    unfolding P_def by (rule order_trans)
next
  case (r_reset d rnd meetingId arg now d')
  have "meetings d' = meetings d"
    using r_reset.hyps(2) unfolding resetSpeakers_def by (rule resetSpeakersInternal_meetings)
  then show ?case using r_reset.IH by simp
next
  case (r_rename d meetingId speakerId displayName)
  then show ?case by (simp add: meetings_patchSpeaker)
next
  case (r_add d newId meetingId displayName now d')
  have "meetings d' = meetings d"
    using r_add.hyps(2) by (rule addSpeaker_meetings)
  then show ?case using r_add.IH by simp
qed

lemmas trim_defs = trim_def trimStart_def trimEnd_def js_space_def

lemma cx_runJob_created: "runJob cx_env ''m1'' (Some ''a.wav'') created_db = (created_db, Inr (JObj [(''status'', JStr ''partial'')]))"
  by (simp add: runJob_def cx_env_def ex_env_def runDiarization_def resolvePayload_def scanStdout_def
      trim_defs cx_parse_def falsy_def persistPayload_def getProp_def Let_def)

lemma created_db_created: "createMeeting ''m1'' ex_rnd ''Weekly'' (Finite 2) ''t0'' \<lparr>meetings = [], speakers = [], segments = []\<rparr> = Inr created_db"
  apply (simp add: createMeeting_def bindE_def insertMeeting_def resetSpeakersInternal_def deleteSpeakers_def Let_def)
  apply (subst countLoop.simps, simp add: insertSpeaker_def show_nat_digits ex_rnd_def Let_def)
  apply (subst countLoop.simps, simp add: insertSpeaker_def show_nat_digits ex_rnd_def Let_def)
  apply (subst countLoop.simps, simp add: created_db_def)
  done

lemma created_db_ended: "postAudio ''m1'' ''a.wav'' ''t1'' created_db = created_db\<lparr>meetings := [\<lparr>m_id = ''m1'', m_name = ''Weekly'', m_status = ''processing'', m_created_at = ''t0'',
                    m_started_at = None, m_ended_at = Some ''t1'', m_audio_file_path = Some ''a.wav''\<rparr>]\<rparr>"
  by (simp add: postAudio_def getMeeting_def meetingRow_def created_db_def endMeeting_def updateMeetings_def coalesce_def)

lemma cx_runJob: "runJob cx_env ''m1'' (Some ''a.wav'') ended_db = (ended_db, Inr (JObj [(''status'', JStr ''partial'')]))"
  by (simp add: runJob_def cx_env_def ex_env_def runDiarization_def resolvePayload_def scanStdout_def
      trim_defs cx_parse_def falsy_def persistPayload_def getProp_def Let_def)

lemma cx_statuses: "map m_status (meetings (handleDiarization cx_env ''m1'' (Some ''a.wav'') ended_db)) = [''partial'']"
  unfolding handleDiarization_def cx_runJob
  by (simp add: nextStatus_def getProp_def updateMeetingStatus_def updateMeetings_def
     ended_db_def created_db_def)

text \<open>
  C1, as amended. For a meeting that has a row, a job leaves it with the status \<open>failed\<close>
  when it ends with an error, and, when it extracted and persisted a payload, with the
  payload's own \<open>status\<close> if that is a string that is not empty, and with \<open>done\<close>
  otherwise. In every state the store can reach, the status of every meeting is one of
  \<open>pending\<close>, \<open>processing\<close>, \<open>done\<close> and \<open>failed\<close>, provided that the payload every job
  extracts (from the output of a process that ended with code 0, or from the result
  file) gives a status (its own, or \<open>done\<close>) among these four. Nothing is asked of the
  other texts \<open>JSON.parse\<close> accepts.
\<close>

theorem job_status:
  "(meetingRow d m = Some r \<longrightarrow>
      (\<exists>r'. meetingRow (handleDiarization env m a d) m = Some r' \<and>
         (case snd (runJob env m a d) of
            Inl e \<Rightarrow> m_status r' = ''failed''
          | Inr payload \<Rightarrow>
              m_status r' = (case getProp payload ''status'' of
                               Some (JStr s) \<Rightarrow> if s = [] then ''done'' else s
                             | _ \<Rightarrow> ''done''))))
   \<and> ((\<forall>env\<in>E. \<forall>out err v. env_process env = Closed (Some 0) out err
            \<and> resolvePayload (env_parse env) out (env_result_file env) = Inr v
            \<longrightarrow> nextStatus v \<in> lifecycle)
        \<and> reachable E d0 \<longrightarrow> m_status ` set (meetings d0) \<subseteq> lifecycle)"
proof (intro conjI impI)
  assume row: "meetingRow d m = Some r"
  show "\<exists>r'. meetingRow (handleDiarization env m a d) m = Some r' \<and>
         (case snd (runJob env m a d) of
            Inl e \<Rightarrow> m_status r' = ''failed''
          | Inr payload \<Rightarrow>
              m_status r' = (case getProp payload ''status'' of
                               Some (JStr s) \<Rightarrow> if s = [] then ''done'' else s
                             | _ \<Rightarrow> ''done''))"
    unfolding handleDiarization_status[OF row]
    by (cases "snd (runJob env m a d)") (auto simp: nextStatus_def split: option.splits json.splits)
next
  assume "(\<forall>env\<in>E. \<forall>out err v. env_process env = Closed (Some 0) out err
            \<and> resolvePayload (env_parse env) out (env_result_file env) = Inr v
            \<longrightarrow> nextStatus v \<in> lifecycle) \<and> reachable E d0"
  then show "m_status ` set (meetings d0) \<subseteq> lifecycle"
    using reachable_statuses[of E d0] by blast
qed

lemma ended_row: "meetingRow ended_db ''m1'' = Some ended_row"
  by (simp add: meetingRow_def ended_db_def created_db_def ended_row_def)

lemma ended_reachable: "reachable E ended_db"
proof -
  have "reachable E created_db"
    using r_create[OF r_init created_db_created] .
  then have "reachable E (postAudio ''m1'' ''a.wav'' ''t1'' created_db)" by (rule r_audio)
  then show ?thesis by (simp add: created_db_ended ended_db_def)
qed

lemma wide_resolve:
  "resolvePayload wide_parse (''Loading model'' @ [CHR 0x0A] @ ''{\"speakers\":[]}'' @ [CHR 0x0A]) None
     = Inr (JObj [(''speakers'', JArr [])])"
  by (simp add: resolvePayload_def scanStdout_def trim_defs wide_parse_def falsy_def Let_def)

lemma wide_runJob: "runJob wide_env ''m1'' (Some ''a.wav'') ended_db = (ended_db, Inr (JObj [(''speakers'', JArr [])]))"
  using wide_resolve
  by (simp add: runJob_def wide_env_def ex_env_def runDiarization_def
      persistPayload_def getProp_def Let_def)

theorem job_status_witness:
  "meetingRow ended_db ''m1'' = Some ended_row
   \<and> env_parse wide_env ''{\"status\":\"partial\"}'' = Some (JObj [(''status'', JStr ''partial'')])
   \<and> (\<exists>r'. meetingRow (handleDiarization wide_env ''m1'' (Some ''a.wav'') ended_db) ''m1'' = Some r'
          \<and> m_status r' = ''done'')
   \<and> reachable {wide_env} (handleDiarization wide_env ''m1'' (Some ''a.wav'') ended_db)
   \<and> m_status ` set (meetings (handleDiarization wide_env ''m1'' (Some ''a.wav'') ended_db)) \<subseteq> lifecycle"
proof -
  have ok: "\<forall>env\<in>{wide_env}. \<forall>out err v. env_process env = Closed (Some 0) out err
            \<and> resolvePayload (env_parse env) out (env_result_file env) = Inr v
            \<longrightarrow> nextStatus v \<in> lifecycle"
  proof (intro ballI allI impI)
    fix env out err v
    assume e: "env \<in> {wide_env}"
      and r: "env_process env = Closed (Some 0) out err
            \<and> resolvePayload (env_parse env) out (env_result_file env) = Inr v"
    from e r have "out = ''Loading model'' @ [CHR 0x0A] @ ''{\"speakers\":[]}'' @ [CHR 0x0A]"
      and "resolvePayload wide_parse out None = Inr v"
      by (simp_all add: wide_env_def ex_env_def)
    then have "v = JObj [(''speakers'', JArr [])]" using wide_resolve by simp
    then show "nextStatus v \<in> lifecycle"
      by (simp add: nextStatus_def getProp_def lifecycle_def)
  qed
  have wp: "env_parse wide_env ''{\"status\":\"partial\"}'' = Some (JObj [(''status'', JStr ''partial'')])"
    by (simp add: wide_env_def wide_parse_def)
  have re: "reachable {wide_env} (handleDiarization wide_env ''m1'' (Some ''a.wav'') ended_db)"
    by (rule r_job[OF ended_reachable]) simp
  note t = job_status[of ended_db "''m1''" ended_row wide_env "Some ''a.wav''" "{wide_env}"
      "handleDiarization wide_env ''m1'' (Some ''a.wav'') ended_db"]
  from t ended_row have "\<exists>r'. meetingRow (handleDiarization wide_env ''m1'' (Some ''a.wav'') ended_db) ''m1'' = Some r'
          \<and> m_status r' = ''done''"
    by (simp add: wide_runJob getProp_def)
  moreover from t ok re
  have "m_status ` set (meetings (handleDiarization wide_env ''m1'' (Some ''a.wav'') ended_db)) \<subseteq> lifecycle"
    by blast
  ultimately show ?thesis using ended_row wp re by (intro conjI)
qed

text \<open>
  The claim as stated fails: a meeting is created, its audio uploaded, and the job
  extracts and persists a payload whose status is \<open>partial\<close>. No error occurs, and the
  reachable state has a meeting whose status is \<open>partial\<close>, neither \<open>done\<close> nor one of the
  four states.
\<close>

theorem job_status_counterexample:
  "reachable {cx_env} (handleDiarization cx_env ''m1'' (Some ''a.wav'') ended_db)
   \<and> runJob cx_env ''m1'' (Some ''a.wav'') ended_db = (ended_db, Inr (JObj [(''status'', JStr ''partial'')]))
   \<and> map m_status (meetings (handleDiarization cx_env ''m1'' (Some ''a.wav'') ended_db)) = [''partial'']
   \<and> ''partial'' \<notin> lifecycle"
proof -
  have "reachable {cx_env} (handleDiarization cx_env ''m1'' (Some ''a.wav'') ended_db)"
    by (rule r_job[OF ended_reachable]) simp
  moreover have "''partial'' \<notin> lifecycle" by (simp add: lifecycle_def)
  ultimately show ?thesis using cx_runJob cx_statuses by (intro conjI)
qed


lemma runDiarization_nonzero:
  assumes "p \<noteq> []" "exists p" "code \<noteq> Some 0"
  shows "runDiarization exists (Closed code out err) dir (Some p) =
              Inl (ProcessFailure (''Diarization process exited with code '' @ show_code code
                     @ [CHR ''.'', CHR 0x0A] @ (if err \<noteq> [] then err else out)))"
  using assms by (simp add: runDiarization_def)

text \<open>
  C5. For a process that was launched (the audio file exists) and ended: an exit code
  other than 0 (or none, when a signal killed it) gives a \<open>ProcessFailure\<close> whose
  message ends with the captured error stream, or with the captured output when the
  error stream is empty; the exit code 0 gives the result with the raw output and the
  output directory, and a result is given only then; and a job whose process ends with
  another code leaves the meeting \<open>failed\<close>.
\<close>

theorem runDiarization_exit_code:
  assumes "p \<noteq> []" and "exists p"
  shows "(code \<noteq> Some 0 \<longrightarrow>
            runDiarization exists (Closed code out err) dir (Some p) =
              Inl (ProcessFailure (''Diarization process exited with code '' @ show_code code
                     @ [CHR ''.'', CHR 0x0A] @ (if err \<noteq> [] then err else out))))
       \<and> (code = Some 0 \<longrightarrow>
            runDiarization exists (Closed code out err) dir (Some p) =
              Inr \<lparr>stdout = out, stderr = err, outputDir = dir\<rparr>)
       \<and> ((\<exists>result. runDiarization exists (Closed code out err) dir (Some p) = Inr result) \<longrightarrow> code = Some 0)
       \<and> (code \<noteq> Some 0 \<and> env_exists env = exists \<and> env_process env = Closed code out err
            \<and> meetingRow d m = Some r \<longrightarrow>
            snd (runJob env m (Some p) d) =
              Inl (ProcessFailure (''Diarization process exited with code '' @ show_code code
                     @ [CHR ''.'', CHR 0x0A] @ (if err \<noteq> [] then err else out)))
            \<and> map_option m_status (meetingRow (handleDiarization env m (Some p) d) m) = Some ''failed'')"
proof (intro conjI impI)
  show a: "runDiarization exists (Closed code out err) dir (Some p) =
              Inl (ProcessFailure (''Diarization process exited with code '' @ show_code code
                     @ [CHR ''.'', CHR 0x0A] @ (if err \<noteq> [] then err else out)))"
    if "code \<noteq> Some 0"
    using assms that by (rule runDiarization_nonzero)
  show "runDiarization exists (Closed code out err) dir (Some p) =
              Inr \<lparr>stdout = out, stderr = err, outputDir = dir\<rparr>" if "code = Some 0"
    using that assms by (simp add: runDiarization_def)
  show "code = Some 0" if "\<exists>result. runDiarization exists (Closed code out err) dir (Some p) = Inr result"
    using that assms by (auto simp: runDiarization_def split: if_splits)
  assume h: "code \<noteq> Some 0 \<and> env_exists env = exists \<and> env_process env = Closed code out err
            \<and> meetingRow d m = Some r"
  then have ne: "code \<noteq> Some 0" and ex: "env_exists env = exists"
    and pr: "env_process env = Closed code out err" by simp_all
  have run: "runDiarization (env_exists env) (env_process env) (env_output_dir env) (Some p) =
      Inl (ProcessFailure (''Diarization process exited with code '' @ show_code code
                     @ [CHR ''.'', CHR 0x0A] @ (if err \<noteq> [] then err else out)))"
    unfolding ex pr using assms ne by (rule runDiarization_nonzero)
  have rj: "runJob env m (Some p) d = (d,
      Inl (ProcessFailure (''Diarization process exited with code '' @ show_code code
                     @ [CHR ''.'', CHR 0x0A] @ (if err \<noteq> [] then err else out))))"
  proof -
    have "env_exists env p" using assms(2) by (simp add: ex)
    then show ?thesis using assms(1) by (simp add: runJob_def run)
  qed
  show "snd (runJob env m (Some p) d) =
              Inl (ProcessFailure (''Diarization process exited with code '' @ show_code code
                     @ [CHR ''.'', CHR 0x0A] @ (if err \<noteq> [] then err else out)))"
    by (simp add: rj)
  show "map_option m_status (meetingRow (handleDiarization env m (Some p) d) m) = Some ''failed''"
    using h by (simp add: handleDiarization_status rj)
qed

theorem runDiarization_exit_code_witness:
  "''a.wav'' \<noteq> [] \<and> env_exists crash_env ''a.wav''
   \<and> runDiarization (env_exists crash_env) (Closed (Some 1) ''Loading model'' ''CUDA out of memory'')
        ''outputs/m1'' (Some ''a.wav'') =
        Inl (ProcessFailure (''Diarization process exited with code 1.'' @ [CHR 0x0A] @ ''CUDA out of memory''))
   \<and> runDiarization (env_exists crash_env) (Closed (Some 1) ''Loading model'' [])
        ''outputs/m1'' (Some ''a.wav'') =
        Inl (ProcessFailure (''Diarization process exited with code 1.'' @ [CHR 0x0A] @ ''Loading model''))
   \<and> runDiarization (env_exists crash_env) (Closed (Some 0) ''Loading model'' ''warning'')
        ''outputs/m1'' (Some ''a.wav'') =
        Inr \<lparr>stdout = ''Loading model'', stderr = ''warning'', outputDir = ''outputs/m1''\<rparr>
   \<and> snd (runJob crash_env ''m1'' (Some ''a.wav'') ended_db) =
        Inl (ProcessFailure (''Diarization process exited with code 1.'' @ [CHR 0x0A] @ ''CUDA out of memory''))
   \<and> map_option m_status (meetingRow (handleDiarization crash_env ''m1'' (Some ''a.wav'') ended_db) ''m1'')
        = Some ''failed''"
proof -
  have h1: "''a.wav'' \<noteq> []" by simp
  have h2: "env_exists crash_env ''a.wav''" by (simp add: crash_env_def ex_env_def)
  have c1: "show_code (Some 1) = ''1''" by (simp add: show_code_def show_nat_digits)
  have p: "env_process crash_env = Closed (Some 1) ''Loading model'' ''CUDA out of memory''"
    by (simp add: crash_env_def ex_env_def)
  note t1 = runDiarization_exit_code[of "''a.wav''" "env_exists crash_env" "Some 1" "''Loading model''"
      "''CUDA out of memory''" "''outputs/m1''" crash_env ended_db "''m1''" ended_row, OF h1 h2]
  note t2 = runDiarization_exit_code[of "''a.wav''" "env_exists crash_env" "Some 1" "''Loading model''"
      "[]" "''outputs/m1''" crash_env ended_db "''m1''" ended_row, OF h1 h2]
  note t3 = runDiarization_exit_code[of "''a.wav''" "env_exists crash_env" "Some 0" "''Loading model''"
      "''warning''" "''outputs/m1''" crash_env ended_db "''m1''" ended_row, OF h1 h2]
  have a: "runDiarization (env_exists crash_env) (Closed (Some 1) ''Loading model'' ''CUDA out of memory'')
        ''outputs/m1'' (Some ''a.wav'') =
        Inl (ProcessFailure (''Diarization process exited with code 1.'' @ [CHR 0x0A] @ ''CUDA out of memory''))"
    using t1 by (simp add: c1)
  have b: "runDiarization (env_exists crash_env) (Closed (Some 1) ''Loading model'' [])
        ''outputs/m1'' (Some ''a.wav'') =
        Inl (ProcessFailure (''Diarization process exited with code 1.'' @ [CHR 0x0A] @ ''Loading model''))"
    using t2 by (simp add: c1)
  have c: "runDiarization (env_exists crash_env) (Closed (Some 0) ''Loading model'' ''warning'')
        ''outputs/m1'' (Some ''a.wav'') =
        Inr \<lparr>stdout = ''Loading model'', stderr = ''warning'', outputDir = ''outputs/m1''\<rparr>"
    using t3 by simp
  have d: "snd (runJob crash_env ''m1'' (Some ''a.wav'') ended_db) =
        Inl (ProcessFailure (''Diarization process exited with code 1.'' @ [CHR 0x0A] @ ''CUDA out of memory''))"
    and e: "map_option m_status (meetingRow (handleDiarization crash_env ''m1'' (Some ''a.wav'') ended_db) ''m1'')
        = Some ''failed''"
    using t1 p ended_row by (simp_all add: c1)
  from h1 h2 a b c d e show ?thesis by (intro conjI)
qed


lemma scanLinesBack_map_filter:
  "scanLinesBack parse ls =
     (case List.map_filter (\<lambda>line. parse (trim line)) ls of [] \<Rightarrow> None | v # earlier \<Rightarrow> Some v)"
  by (induction ls) (auto simp: List.map_filter_simps split: option.splits)

lemma trim_Nil: "trim [] = []"
  by (simp add: trim_def trimStart_def trimEnd_def)

lemma stdoutLines_blank: "trim out = [] \<Longrightarrow> stdoutLines out = []"
  by (simp add: stdoutLines_def trim_Nil)

lemma scanStdout_lines: "scanStdout parse out = scanLinesBack parse (rev (stdoutLines out))"
proof (cases "trim out = []")
  case True
  then show ?thesis by (simp add: scanStdout_def stdoutLines_blank)
next
  case False
  then show ?thesis by (simp add: scanStdout_def stdoutLines_def)
qed

lemma resolvePayload_eq:
  "resolvePayload parse out file =
     (let fallback = (case file of
                        None \<Rightarrow> Inl PayloadMissing
                      | Some filePayload \<Rightarrow>
                          (case parse filePayload of
                             None \<Rightarrow> Inl SyntaxError
                           | Some v \<Rightarrow> if truthy v then Inr v else Inl PayloadMissing))
      in case List.map_filter (\<lambda>line. parse (trim line)) (rev (stdoutLines out)) of
           [] \<Rightarrow> fallback
         | v # earlier \<Rightarrow> if truthy v then Inr v else fallback)"
  unfolding resolvePayload_def scanStdout_lines scanLinesBack_map_filter Let_def
  by (auto simp: falsy_def split: list.splits option.splits)

lemma runJob_resolve_error:
  assumes "resolvePayload (env_parse env) out (env_result_file env) = Inl e"
    and "env_process env = Closed (Some 0) out err" and "p \<noteq> []" and "env_exists env p"
  shows "runJob env m (Some p) d = (d, Inl e)"
proof -
  have "runDiarization (env_exists env) (env_process env) (env_output_dir env) (Some p)
      = Inr \<lparr>stdout = out, stderr = err, outputDir = env_output_dir env\<rparr>"
    using assms(2,3,4) by (simp add: runDiarization_def)
  then show ?thesis using assms(1,3,4) by (simp add: runJob_def)
qed

text \<open>
  C2, as amended. The values of the lines that parse, taken from the last line of the
  trimmed output to the first among the lines that are not blank, decide the payload:
  it is the first of them when that value is truthy. When no line parses, or when the
  first value that parses is falsy (\<open>null\<close>, \<open>false\<close>, \<open>0\<close>, the empty string), the
  payload is read from the result file: its value when it parses to a truthy value,
  \<open>PayloadMissing\<close> when the file is absent or its value falsy, and the parser's
  \<open>SyntaxError\<close> when it does not parse. Whenever the extraction fails after a process
  that ended with code 0, the job ends with that error and the meeting is \<open>failed\<close>.
\<close>

theorem resolvePayload_scan:
  "resolvePayload parse out file =
     (let fallback = (case file of
                        None \<Rightarrow> Inl PayloadMissing
                      | Some filePayload \<Rightarrow>
                          (case parse filePayload of
                             None \<Rightarrow> Inl SyntaxError
                           | Some v \<Rightarrow> if truthy v then Inr v else Inl PayloadMissing))
      in case List.map_filter (\<lambda>line. parse (trim line)) (rev (stdoutLines out)) of
           [] \<Rightarrow> fallback
         | v # earlier \<Rightarrow> if truthy v then Inr v else fallback)
   \<and> (resolvePayload (env_parse env) out (env_result_file env) = Inl e
        \<and> env_process env = Closed (Some 0) out err \<and> p \<noteq> [] \<and> env_exists env p
        \<and> meetingRow d m = Some r \<longrightarrow>
          snd (runJob env m (Some p) d) = Inl e
        \<and> map_option m_status (meetingRow (handleDiarization env m (Some p) d) m) = Some ''failed'')"
proof (intro conjI impI)
  show "resolvePayload parse out file =
     (let fallback = (case file of
                        None \<Rightarrow> Inl PayloadMissing
                      | Some filePayload \<Rightarrow>
                          (case parse filePayload of
                             None \<Rightarrow> Inl SyntaxError
                           | Some v \<Rightarrow> if truthy v then Inr v else Inl PayloadMissing))
      in case List.map_filter (\<lambda>line. parse (trim line)) (rev (stdoutLines out)) of
           [] \<Rightarrow> fallback
         | v # earlier \<Rightarrow> if truthy v then Inr v else fallback)"
    by (rule resolvePayload_eq)
next
  assume h: "resolvePayload (env_parse env) out (env_result_file env) = Inl e
        \<and> env_process env = Closed (Some 0) out err \<and> p \<noteq> [] \<and> env_exists env p
        \<and> meetingRow d m = Some r"
  then have rj: "runJob env m (Some p) d = (d, Inl e)"
    using runJob_resolve_error[of env out e err p m d] by blast
  show "snd (runJob env m (Some p) d) = Inl e" by (simp add: rj)
  show "map_option m_status (meetingRow (handleDiarization env m (Some p) d) m) = Some ''failed''"
    using h by (simp add: handleDiarization_status rj)
qed

lemma null_lines:
  "List.map_filter (\<lambda>line. ex_parse (trim line)) (rev (stdoutLines null_stdout))
     = [JNull, JObj [(''speakers'', JArr [])]]"
  by (simp add: stdoutLines_def null_stdout_def trim_defs List.map_filter_simps ex_parse_def)

text \<open>
  The claim as stated fails on an output whose last line is \<open>null\<close>, after the result:
  two lines parse, yet neither is returned and, with no result file, the job fails with
  \<open>PayloadMissing\<close>. And a result file that does not parse ends the job with the parser's
  error, not with \<open>PayloadMissing\<close>.
\<close>

theorem resolvePayload_scan_counterexample:
  "List.map_filter (\<lambda>line. ex_parse (trim line)) (rev (stdoutLines null_stdout))
     = [JNull, JObj [(''speakers'', JArr [])]]
   \<and> resolvePayload ex_parse null_stdout None = Inl PayloadMissing
   \<and> ex_parse ''{'' = None
   \<and> resolvePayload ex_parse ''Loading model'' (Some ''{'') = Inl SyntaxError"
proof -
  have "resolvePayload ex_parse null_stdout None = Inl PayloadMissing"
    unfolding resolvePayload_eq null_lines by simp
  moreover have "ex_parse ''{'' = None" by (simp add: ex_parse_def)
  moreover have "resolvePayload ex_parse ''Loading model'' (Some ''{'') = Inl SyntaxError"
    by (simp add: resolvePayload_def scanStdout_def trim_defs ex_parse_def falsy_def)
  ultimately show ?thesis using null_lines by (intro conjI)
qed

theorem resolvePayload_scan_witness:
  "resolvePayload (env_parse null_env) null_stdout (env_result_file null_env) = Inl PayloadMissing
   \<and> env_process null_env = Closed (Some 0) null_stdout [] \<and> ''a.wav'' \<noteq> [] \<and> env_exists null_env ''a.wav''
   \<and> meetingRow ended_db ''m1'' = Some ended_row
   \<and> snd (runJob null_env ''m1'' (Some ''a.wav'') ended_db) = Inl PayloadMissing
   \<and> map_option m_status (meetingRow (handleDiarization null_env ''m1'' (Some ''a.wav'') ended_db) ''m1'') = Some ''failed''
   \<and> resolvePayload ex_parse null_stdout (Some ''{\"speakers\":[]}'') = Inr (JObj [(''speakers'', JArr [])])
   \<and> resolvePayload ex_parse (''Loading model'' @ [CHR 0x0A] @ ''{\"speakers\":[]}'' @ [CHR 0x0A]) None
        = Inr (JObj [(''speakers'', JArr [])])"
proof -
  note t = resolvePayload_scan[of ex_parse null_stdout None null_env PayloadMissing "[]" "''a.wav''" ended_db "''m1''" ended_row]
  have p: "env_parse null_env = ex_parse" "env_result_file null_env = None"
    "env_process null_env = Closed (Some 0) null_stdout []" "env_exists null_env ''a.wav''"
    by (simp_all add: null_env_def ex_env_def)
  have h1: "resolvePayload (env_parse null_env) null_stdout (env_result_file null_env) = Inl PayloadMissing"
    unfolding p using t null_lines by simp
  have h3: "''a.wav'' \<noteq> []" by simp
  have c: "snd (runJob null_env ''m1'' (Some ''a.wav'') ended_db) = Inl PayloadMissing
        \<and> map_option m_status (meetingRow (handleDiarization null_env ''m1'' (Some ''a.wav'') ended_db) ''m1'') = Some ''failed''"
    using t h1 p(3,4) h3 ended_row by blast
  have f: "resolvePayload ex_parse null_stdout (Some ''{\"speakers\":[]}'') = Inr (JObj [(''speakers'', JArr [])])"
    using resolvePayload_scan[of ex_parse null_stdout "Some ''{\"speakers\":[]}''" null_env PayloadMissing "[]" "''a.wav''" ended_db "''m1''" ended_row]
      null_lines by (simp add: ex_parse_def)
  have l: "List.map_filter (\<lambda>line. ex_parse (trim line))
          (rev (stdoutLines (''Loading model'' @ [CHR 0x0A] @ ''{\"speakers\":[]}'' @ [CHR 0x0A])))
        = [JObj [(''speakers'', JArr [])]]"
    by (simp add: stdoutLines_def trim_defs List.map_filter_simps ex_parse_def)
  have g: "resolvePayload ex_parse (''Loading model'' @ [CHR 0x0A] @ ''{\"speakers\":[]}'' @ [CHR 0x0A]) None
        = Inr (JObj [(''speakers'', JArr [])])"
    using resolvePayload_scan[of ex_parse "''Loading model'' @ [CHR 0x0A] @ ''{\"speakers\":[]}'' @ [CHR 0x0A]" None null_env PayloadMissing "[]" "''a.wav''" ended_db "''m1''" ended_row]
      l by simp
  from h1 p(3) h3 p(4) ended_row c f g show ?thesis by (intro conjI) blast+
qed

subsection \<open>Splitting a text into lines and joining them\<close>

lemma splitLines_ne: "splitLines s \<noteq> []"
  by (induction s rule: splitLines.induct) (auto split: list.splits)

lemma splitLines_noLF: "r \<in> set (splitLines s) \<Longrightarrow> LF \<notin> set r"
proof (induction s arbitrary: r rule: splitLines.induct)
  case 1
  then show ?case by simp
next
  case (2 c)
  then show ?case by (auto split: if_splits)
next
  case (3 c c' cs)
  show ?case
  proof (cases "c = CR \<and> c' = LF")
    case True
    with 3 show ?thesis by auto
  next
    case False
    note nsep = this
    show ?thesis
    proof (cases "c = LF")
      case True
      with 3 nsep show ?thesis by auto
    next
      case False
      obtain l ls where sp: "splitLines (c' # cs) = l # ls"
        using splitLines_ne[of "c' # cs"] by (cases "splitLines (c' # cs)") auto
      have r: "r = c # l \<or> r \<in> set ls"
        using "3.prems" nsep False sp by auto
      have "LF \<notin> set l" "\<And>x. x \<in> set ls \<Longrightarrow> LF \<notin> set x"
        using "3.IH"(3)[OF nsep False] sp by auto
      with r False show ?thesis by auto
    qed
  qed
qed


lemma splitLines_Cons_plain:
  assumes "c \<noteq> LF" "\<not> (c = CR \<and> (\<exists>t. s = LF # t))"
  shows "splitLines (c # s) = (c # hd (splitLines s)) # tl (splitLines s)"
proof (cases s)
  case Nil
  with assms show ?thesis by simp
next
  case (Cons c' cs)
  obtain l ls where sp: "splitLines (c' # cs) = l # ls"
    using splitLines_ne[of "c' # cs"] by (cases "splitLines (c' # cs)") auto
  show ?thesis using assms Cons sp by auto
qed

lemma splitLines_LF: "splitLines (LF # s) = [] # splitLines s"
  by (cases s) auto

lemma splitLines_CRLF: "splitLines (CR # LF # s) = [] # splitLines s"
  by simp

lemma splitLines_append_LF:
  assumes "LF \<notin> set r" "r = [] \<or> last r \<noteq> CR"
  shows "splitLines (r @ LF # s) = r # splitLines s"
  using assms
proof (induction r)
  case Nil
  then show ?case by (simp add: splitLines_LF)
next
  case (Cons c r)
  have c: "c \<noteq> LF" using Cons.prems by auto
  have r: "LF \<notin> set r" using Cons.prems by simp
  show ?case
  proof (cases r)
    case Nil
    then have "c \<noteq> CR" using Cons.prems by simp
    then show ?thesis using Nil c by (simp add: splitLines_Cons_plain splitLines_LF)
  next
    case (Cons c2 r2)
    then have lastr: "r = [] \<or> last r \<noteq> CR" using Cons.prems by simp
    have "splitLines (c # r @ LF # s) = (c # hd (splitLines (r @ LF # s))) # tl (splitLines (r @ LF # s))"
      using c r Cons by (intro splitLines_Cons_plain) auto
    then show ?thesis using Cons.IH[OF r lastr] by simp
  qed
qed

lemma splitLines_append_CRLF:
  assumes "LF \<notin> set r"
  shows "splitLines (r @ CR # LF # s) = r # splitLines s"
  using assms
proof (induction r)
  case Nil
  then show ?case by simp
next
  case (Cons c r)
  have c: "c \<noteq> LF" using Cons.prems by auto
  have r: "LF \<notin> set r" using Cons.prems by simp
  have "splitLines (c # r @ CR # LF # s) = (c # hd (splitLines (r @ CR # LF # s))) # tl (splitLines (r @ CR # LF # s))"
    using c r by (intro splitLines_Cons_plain) (cases r; auto)+
  then show ?case using Cons.IH[OF r] by simp
qed

lemma splitLines_plain:
  assumes "LF \<notin> set r"
  shows "splitLines r = [r]"
  using assms
proof (induction r)
  case Nil
  then show ?case by simp
next
  case (Cons c r)
  then have "splitLines (c # r) = (c # hd (splitLines r)) # tl (splitLines r)"
    by (intro splitLines_Cons_plain) (cases r; auto)+
  then show ?case using Cons by simp
qed

lemma joinWith_Cons: "rs \<noteq> [] \<Longrightarrow> joinWith nl (r # rs) = r @ nl @ joinWith nl rs"
  by (cases rs) auto

lemma joinWith_snoc: "rs \<noteq> [] \<Longrightarrow> joinWith nl (rs @ [r]) = joinWith nl rs @ nl @ r"
proof (induction rs)
  case Nil
  then show ?case by simp
next
  case (Cons a rs)
  show ?case
  proof (cases "rs = []")
    case True
    then show ?thesis by simp
  next
    case False
    then show ?thesis using Cons.IH by (simp add: joinWith_Cons)
  qed
qed

lemma splitLines_joinWith:
  assumes "rs \<noteq> []" "\<forall>r\<in>set rs. LF \<notin> set r"
    and "nl = [CR, LF] \<or> (nl = [LF] \<and> (\<forall>r\<in>set (butlast rs). r = [] \<or> last r \<noteq> CR))"
  shows "splitLines (joinWith nl rs) = rs"
  using assms
proof (induction rs)
  case Nil
  then show ?case by simp
next
  case (Cons r rs)
  show ?case
  proof (cases "rs = []")
    case True
    then show ?thesis using Cons.prems by (simp add: splitLines_plain)
  next
    case False
    have ih: "splitLines (joinWith nl rs) = rs"
      using Cons.IH False Cons.prems by auto
    have r: "LF \<notin> set r" using Cons.prems by simp
    from Cons.prems(3) show ?thesis
    proof
      assume nl: "nl = [CR, LF]"
      show ?thesis using splitLines_append_CRLF[OF r] ih False by (simp add: joinWith_Cons nl)
    next
      assume a: "nl = [LF] \<and> (\<forall>r\<in>set (butlast (r # rs)). r = [] \<or> last r \<noteq> CR)"
      then have "r = [] \<or> last r \<noteq> CR" using False by simp
      then show ?thesis using splitLines_append_LF[OF r] ih False a by (simp add: joinWith_Cons)
    qed
  qed
qed

lemma lineBreaks_Cons_plain:
  assumes "c \<noteq> LF" "\<not> (c = CR \<and> (\<exists>t. s = LF # t))"
  shows "lineBreaks (c # s) = lineBreaks s"
  using assms by (cases s) auto

lemma lineBreaks_LF: "lineBreaks (LF # s) = [LF] # lineBreaks s"
  by (cases s) auto

lemma lineBreaks_plain: "LF \<notin> set r \<Longrightarrow> lineBreaks r = []"
proof (induction r)
  case Nil
  then show ?case by simp
next
  case (Cons c r)
  then have "lineBreaks (c # r) = lineBreaks r"
    by (intro lineBreaks_Cons_plain) (cases r; auto)+
  then show ?case using Cons by simp
qed

lemma lineBreaks_append_CRLF:
  assumes "LF \<notin> set r"
  shows "lineBreaks (r @ CR # LF # s) = [CR, LF] # lineBreaks s"
  using assms
proof (induction r)
  case Nil
  then show ?case by simp
next
  case (Cons c r)
  have "lineBreaks (c # r @ CR # LF # s) = lineBreaks (r @ CR # LF # s)"
    using Cons.prems by (intro lineBreaks_Cons_plain) (cases r; auto)+
  then show ?case using Cons by simp
qed

lemma lineBreaks_append_LF:
  assumes "LF \<notin> set r" "r = [] \<or> last r \<noteq> CR"
  shows "lineBreaks (r @ LF # s) = [LF] # lineBreaks s"
  using assms
proof (induction r)
  case Nil
  then show ?case by (simp add: lineBreaks_LF)
next
  case (Cons c r)
  have c: "c \<noteq> LF" using Cons.prems by auto
  have r: "LF \<notin> set r" using Cons.prems by simp
  show ?case
  proof (cases r)
    case Nil
    then have "c \<noteq> CR" using Cons.prems by simp
    then show ?thesis using Nil c by (simp add: lineBreaks_Cons_plain lineBreaks_LF)
  next
    case (Cons c2 r2)
    then have lastr: "r = [] \<or> last r \<noteq> CR" using Cons.prems by simp
    have "lineBreaks (c # r @ LF # s) = lineBreaks (r @ LF # s)"
      using c r Cons by (intro lineBreaks_Cons_plain) auto
    then show ?thesis using Cons.IH[OF r lastr] by simp
  qed
qed

lemma lineBreaks_joinWith:
  assumes "\<forall>r\<in>set rs. LF \<notin> set r"
    and "nl = [CR, LF] \<or> (nl = [LF] \<and> (\<forall>r\<in>set (butlast rs). r = [] \<or> last r \<noteq> CR))"
  shows "lineBreaks (joinWith nl rs) = replicate (length rs - 1) nl"
  using assms
proof (induction rs)
  case Nil
  then show ?case by simp
next
  case (Cons r rs)
  show ?case
  proof (cases "rs = []")
    case True
    then show ?thesis using Cons.prems by (simp add: lineBreaks_plain)
  next
    case False
    have ih: "lineBreaks (joinWith nl rs) = replicate (length rs - 1) nl"
      using Cons.IH False Cons.prems by auto
    have r: "LF \<notin> set r" using Cons.prems by simp
    have len: "replicate (length (r # rs) - 1) nl = nl # replicate (length rs - 1) nl"
      using False by (cases rs) auto
    from Cons.prems(2) show ?thesis
    proof
      assume nl: "nl = [CR, LF]"
      show ?thesis unfolding len using lineBreaks_append_CRLF[OF r] ih False
        by (simp add: joinWith_Cons nl)
    next
      assume a: "nl = [LF] \<and> (\<forall>r\<in>set (butlast (r # rs)). r = [] \<or> last r \<noteq> CR)"
      then have "r = [] \<or> last r \<noteq> CR" using False by simp
      then show ?thesis unfolding len using lineBreaks_append_LF[OF r] ih False a
        by (simp add: joinWith_Cons)
    qed
  qed
qed

lemma splitLines_single_empty: "splitLines s = [[]] \<longleftrightarrow> s = []"
proof (cases s)
  case Nil
  then show ?thesis by simp
next
  case (Cons c t)
  show ?thesis
  proof (cases "c = LF")
    case True
    then show ?thesis using Cons splitLines_ne[of t] by (simp add: splitLines_LF)
  next
    case False
    show ?thesis
    proof (cases "c = CR \<and> (\<exists>u. t = LF # u)")
      case True
      then obtain u where "t = LF # u" by auto
      then show ?thesis using Cons True splitLines_ne[of u] by simp
    next
      case nsep: False
      then show ?thesis using Cons False splitLines_Cons_plain[of c t] by simp
    qed
  qed
qed

lemma splitLines_last:
  "last (splitLines s) = [] \<longleftrightarrow> s = [] \<or> last s = LF"
proof (induction s rule: splitLines.induct)
  case 1
  then show ?case by simp
next
  case (2 c)
  then show ?case by simp
next
  case (3 c c' cs)
  obtain l ls where sp: "splitLines (c' # cs) = l # ls"
    using splitLines_ne[of "c' # cs"] by (cases "splitLines (c' # cs)") auto
  show ?case
  proof (cases "c = CR \<and> c' = LF")
    case True
    then show ?thesis using 3 splitLines_ne[of cs] by (cases cs) auto
  next
    case False
    note nsep = this
    show ?thesis
    proof (cases "c = LF")
      case True
      then show ?thesis using 3 nsep splitLines_ne[of "c' # cs"] by auto
    next
      case False
      have ih: "last (splitLines (c' # cs)) = [] \<longleftrightarrow> c' # cs = [] \<or> last (c' # cs) = LF"
        using "3.IH"(3)[OF nsep False] .
      have "splitLines (c # c' # cs) = (c # l) # ls"
        using splitLines_Cons_plain[of c "c' # cs"] nsep False sp by auto
      then have "last (splitLines (c # c' # cs)) = (if ls = [] then c # l else last ls)"
        by simp
      moreover have "last (splitLines (c' # cs)) = (if ls = [] then l else last ls)"
        using sp by simp
      moreover have "ls = [] \<Longrightarrow> l \<noteq> []"
        using sp splitLines_single_empty[of "c' # cs"] by auto
      ultimately show ?thesis using ih by auto
    qed
  qed
qed

lemma splitLines_hd_empty:
  assumes "hd (splitLines s) = []" "s \<noteq> []"
  shows "hd s = LF \<or> prefix [CR, LF] s"
proof (cases s)
  case Nil
  with assms show ?thesis by simp
next
  case (Cons c t)
  show ?thesis
  proof (cases "c = LF \<or> (c = CR \<and> (\<exists>u. t = LF # u))")
    case True
    then show ?thesis using Cons by auto
  next
    case False
    then have "splitLines (c # t) = (c # hd (splitLines t)) # tl (splitLines t)"
      by (intro splitLines_Cons_plain) auto
    then show ?thesis using assms Cons by simp
  qed
qed

lemma no_CRLF_tail: "\<not> sublist [CR, LF] (c # s) \<Longrightarrow> \<not> sublist [CR, LF] s"
  by (simp add: sublist_Cons_right)

lemma no_CRLF_head: "\<not> sublist [CR, LF] (c # c' # s) \<Longrightarrow> \<not> (c = CR \<and> c' = LF)"
  by (auto simp: sublist_Cons_right)

lemma splitLines_no_CR_end:
  assumes "\<not> sublist [CR, LF] s" "r \<in> set (butlast (splitLines s))"
  shows "r = [] \<or> last r \<noteq> CR"
  using assms
proof (induction s arbitrary: r rule: splitLines.induct)
  case 1
  then show ?case by simp
next
  case (2 c)
  then show ?case by (auto split: if_splits)
next
  case (3 c c' cs)
  have nsep: "\<not> (c = CR \<and> c' = LF)" using "3.prems"(1) by (rule no_CRLF_head)
  have tl: "\<not> sublist [CR, LF] (c' # cs)" using "3.prems"(1) by (rule no_CRLF_tail)
  obtain l ls where sp: "splitLines (c' # cs) = l # ls"
    using splitLines_ne[of "c' # cs"] by (cases "splitLines (c' # cs)") auto
  show ?case
  proof (cases "c = LF")
    case True
    then have "splitLines (c # c' # cs) = [] # l # ls" using sp by (simp add: splitLines_LF)
    then have "r = [] \<or> r \<in> set (butlast (l # ls))" using "3.prems"(2) by auto
    then show ?thesis using "3.IH"(2)[OF nsep True tl] sp by auto
  next
    case False
    have rows: "splitLines (c # c' # cs) = (c # l) # ls"
      using splitLines_Cons_plain[of c "c' # cs"] nsep False sp by auto
    have ih: "\<And>x. x \<in> set (butlast (l # ls)) \<Longrightarrow> x = [] \<or> last x \<noteq> CR"
      using "3.IH"(3)[OF nsep False tl] sp by simp
    show ?thesis
    proof (cases "ls = []")
      case True
      then show ?thesis using "3.prems"(2) rows by simp
    next
      case ne: False
      then have r: "r = c # l \<or> r \<in> set (butlast ls)" using "3.prems"(2) rows by auto
      have lin: "l \<in> set (butlast (l # ls))" using ne by simp
      show ?thesis
      proof (cases "r = c # l")
        case True
        show ?thesis
        proof (cases "l = []")
          case True
          then have "hd (splitLines (c' # cs)) = []" using sp by simp
          then have "hd (c' # cs) = LF \<or> prefix [CR, LF] (c' # cs)"
            by (rule splitLines_hd_empty) simp
          then have "c \<noteq> CR"
          proof
            assume "hd (c' # cs) = LF"
            then show ?thesis using nsep by auto
          next
            assume "prefix [CR, LF] (c' # cs)"
            then have "sublist [CR, LF] (c' # cs)" by (rule prefix_imp_sublist)
            then show ?thesis using tl by simp
          qed
          then show ?thesis using \<open>r = c # l\<close> True by simp
        next
          case False
          then show ?thesis using ih[OF lin] \<open>r = c # l\<close> by simp
        qed
      next
        case False
        then have "r \<in> set (butlast ls)" using r by simp
        then have "r \<in> set (butlast (l # ls))" using ne by simp
        then show ?thesis by (rule ih)
      qed
    qed
  qed
qed

lemma splitLines_length_LF:
  assumes "s \<noteq> []" "last s = LF"
  shows "2 \<le> length (splitLines s)"
proof -
  have l: "last (splitLines s) = []" using assms by (simp add: splitLines_last)
  have "splitLines s \<noteq> [[]]" using assms(1) by (simp add: splitLines_single_empty)
  then show ?thesis using l splitLines_ne[of s]
    by (cases "splitLines s" rule: rev_cases) (auto simp: Suc_le_eq)
qed

subsection \<open>The rewriter of the CSV export\<close>

lemma indexOf_None: "indexOf c s = None \<longleftrightarrow> c \<notin> set s"
  by (induction s) auto

lemma indexOf_Some:
  "indexOf c s = Some i \<Longrightarrow> i < length s \<and> s ! i = c \<and> c \<notin> set (take i s)"
proof (induction s arbitrary: i)
  case Nil
  then show ?case by simp
next
  case (Cons x s)
  show ?case
  proof (cases "x = c")
    case True
    with Cons.prems show ?thesis by simp
  next
    case False
    with Cons.prems obtain j where j: "indexOf c s = Some j" "i = Suc j" by auto
    from Cons.IH[OF j(1)] False j(2) show ?thesis by auto
  qed
qed

lemma indexOf_append: "c \<notin> set x \<Longrightarrow> indexOf c (x @ c # y) = Some (length x)"
  by (induction x) auto

lemma indexOf_takeWhile: "indexOf c s = Some i \<Longrightarrow> take i s = takeWhile (\<lambda>x. x \<noteq> c) s"
proof (induction s arbitrary: i)
  case Nil
  then show ?case by simp
next
  case (Cons x s)
  then show ?case by (cases "x = c") auto
qed

lemma not_space_comma: "\<not> js_space CHR '',''"
  by (simp add: js_space_def)

lemma dropWhile_spaces: "\<forall>c\<in>set w. js_space c \<Longrightarrow> dropWhile js_space (w @ s) = dropWhile js_space s"
  by (induction w) auto

lemma takeWhile_spaces:
  "\<forall>c\<in>set w. js_space c \<Longrightarrow> takeWhile js_space (w @ s) = w @ takeWhile js_space s"
  by (induction w) auto

lemma trim_padded:
  assumes "\<forall>c\<in>set lead. js_space c" "\<forall>c\<in>set trail. js_space c"
    and "label \<noteq> []" "\<not> js_space (hd label)" "\<not> js_space (last label)"
  shows "trim (lead @ label @ trail) = label"
    and "takeWhile js_space (lead @ label @ trail) = lead"
    and "rev (takeWhile js_space (rev (lead @ label @ trail))) = trail"
proof -
  have hd: "dropWhile js_space (label @ s) = label @ s" "takeWhile js_space (label @ s) = []" for s
    using assms(3,4) by (cases label; simp)+
  have rl: "rev label \<noteq> []" "\<not> js_space (hd (rev label))"
    using assms(3,5) by (simp_all add: hd_rev)
  have tl: "dropWhile js_space (rev label @ s) = rev label @ s"
    "takeWhile js_space (rev label @ s) = []" for s
    using rl by (cases "rev label"; simp)+
  have rt: "\<forall>c\<in>set (rev trail). js_space c" using assms(2) by simp
  have tl0: "dropWhile js_space (rev label) = rev label" using tl(1)[of "[]"] by simp
  show "trim (lead @ label @ trail) = label"
    unfolding trim_def trimStart_def trimEnd_def
    using dropWhile_spaces[OF assms(1)] hd dropWhile_spaces[OF rt] tl tl0 by simp
  show "takeWhile js_space (lead @ label @ trail) = lead"
    using takeWhile_spaces[OF assms(1)] hd by simp
  show "rev (takeWhile js_space (rev (lead @ label @ trail))) = trail"
    using takeWhile_spaces[OF rt] tl by simp
qed

lemma trim_eq_Nil: "trim t = [] \<longleftrightarrow> (\<forall>c\<in>set t. js_space c)"
proof
  assume "trim t = []"
  then have "dropWhile js_space (rev (dropWhile js_space t)) = []"
    by (simp add: trim_def trimStart_def trimEnd_def)
  then have a: "\<forall>c\<in>set (dropWhile js_space t). js_space c"
    by (simp add: dropWhile_eq_Nil_conv)
  show "\<forall>c\<in>set t. js_space c"
  proof (cases "dropWhile js_space t")
    case Nil
    then show ?thesis by (simp add: dropWhile_eq_Nil_conv)
  next
    case (Cons x xs)
    then have "\<not> js_space (hd (dropWhile js_space t))"
      using hd_dropWhile[of js_space t] by simp
    then show ?thesis using a Cons by simp
  qed
next
  assume a: "\<forall>c\<in>set t. js_space c"
  have d: "dropWhile js_space t = []" using a by simp
  show "trim t = []" unfolding trim_def trimStart_def trimEnd_def d by simp
qed

lemma trim_not_blank:
  assumes "label \<noteq> []" "\<not> js_space (hd label)"
  shows "trim (lead @ label @ s) \<noteq> []"
proof -
  have "hd label \<in> set (lead @ label @ s)" using assms(1) by simp
  then show ?thesis using assms(2) unfolding trim_eq_Nil by blast
qed

lemma rewriteCsvRow_label:
  assumes "\<forall>c\<in>set lead. js_space c" "\<forall>c\<in>set trail. js_space c"
    and "label \<noteq> []" "\<not> js_space (hd label)" "\<not> js_space (last label)"
    and "CHR '','' \<notin> set label" "map_of m label = Some name" "name \<noteq> []"
  shows "rewriteCsvRow m (lead @ label @ trail @ CHR '','' # rest)
           = (lead @ name @ trail @ CHR '','' # rest, name \<noteq> label)"
proof -
  define raw where "raw = lead @ label @ trail"
  have row: "lead @ label @ trail @ CHR '','' # rest = raw @ CHR '','' # rest"
    and out: "lead @ name @ trail @ CHR '','' # rest = (lead @ name @ trail) @ CHR '','' # rest"
    by (simp_all add: raw_def)
  have nc: "CHR '','' \<notin> set raw"
    using assms(1,2,6) not_space_comma by (auto simp: raw_def)
  have ix: "indexOf CHR '','' (raw @ CHR '','' # rest) = Some (length raw)"
    using nc by (rule indexOf_append)
  have nb: "trim (raw @ CHR '','' # rest) \<noteq> []"
    using trim_not_blank[OF assms(3,4), of lead "trail @ CHR '','' # rest"] by (simp add: raw_def)
  have tk: "take (length raw) (raw @ CHR '','' # rest) = raw"
    "drop (length raw) (raw @ CHR '','' # rest) = CHR '','' # rest"
    by simp_all
  have tp: "trim raw = label" "takeWhile js_space raw = lead"
    "rev (takeWhile js_space (rev raw)) = trail"
    unfolding raw_def by (rule trim_padded[OF assms(1-5)])+
  show ?thesis
    unfolding row out rewriteCsvRow_def Let_def ix option.case tk tp
    using nb assms(7,8) by (cases "name = label") (simp_all add: raw_def)
qed

lemma rewriteCsvRow_unchanged:
  assumes "CHR '','' \<notin> set row \<or> trim row = []
          \<or> map_of m (trim (takeWhile (\<lambda>c. c \<noteq> CHR '','') row)) \<in> {None, Some []}"
  shows "rewriteCsvRow m row = (row, False)"
proof (cases "indexOf CHR '','' row")
  case None
  then show ?thesis by (simp add: rewriteCsvRow_def)
next
  case (Some i)
  then have "CHR '','' \<in> set row" using indexOf_None[of "CHR '',''" row] by auto
  with assms have "trim row = [] \<or> map_of m (trim (take i row)) \<in> {None, Some []}"
    using indexOf_takeWhile[OF Some] by auto
  then show ?thesis using Some by (auto simp: rewriteCsvRow_def Let_def)
qed

lemma rewriteCsvRow_shape:
  "rewriteCsvRow m row = (row, False)
   \<or> (\<exists>i name. indexOf CHR '','' row = Some i \<and> map_of m (trim (take i row)) = Some name
         \<and> name \<noteq> []
         \<and> rewriteCsvRow m row =
             (takeWhile js_space (take i row) @ name @ rev (takeWhile js_space (rev (take i row)))
                @ drop i row, True))"
  by (auto simp: rewriteCsvRow_def Let_def split: option.splits)

lemma rewriteCsvRow_cases:
  obtains (same) "rewriteCsvRow m row = (row, False)"
  | (changed) i name where "indexOf CHR '','' row = Some i"
      "map_of m (trim (take i row)) = Some name" "name \<noteq> []"
      "rewriteCsvRow m row =
         (takeWhile js_space (take i row) @ name @ rev (takeWhile js_space (rev (take i row)))
            @ drop i row, True)"
  using rewriteCsvRow_shape[of m row] by blast

lemma rewriteCsvRow_Nil: "rewriteCsvRow m [] = ([], False)"
  by (simp add: rewriteCsvRow_def trim_Nil)

lemma rewriteCsvRow_last:
  assumes "row \<noteq> []"
  shows "fst (rewriteCsvRow m row) \<noteq> [] \<and> last (fst (rewriteCsvRow m row)) = last row"
proof (cases rule: rewriteCsvRow_cases[of m row])
  case same
  then show ?thesis using assms by simp
next
  case (changed i name)
  have "i < length row" using indexOf_Some[OF changed(1)] by simp
  then have "drop i row \<noteq> []" "last (drop i row) = last row" by simp_all
  then show ?thesis using changed(4) by simp
qed

lemma rewriteCsvRow_noLF:
  assumes "LF \<notin> set row" "\<forall>name\<in>snd ` set m. LF \<notin> set name"
  shows "LF \<notin> set (fst (rewriteCsvRow m row))"
proof (cases rule: rewriteCsvRow_cases[of m row])
  case same
  then show ?thesis using assms by simp
next
  case (changed i name)
  have "name \<in> snd ` set m" using map_of_SomeD[OF changed(2)] by force
  then have n: "LF \<notin> set name" using assms(2) by blast
  have "set (takeWhile js_space (take i row)) \<subseteq> set row"
    "set (takeWhile js_space (rev (take i row))) \<subseteq> set row"
    "set (drop i row) \<subseteq> set row"
    using set_takeWhileD set_take_subset set_drop_subset
    by (fastforce dest: set_takeWhileD in_set_takeD in_set_dropD)+
  then show ?thesis using changed(4) n assms(1) by auto
qed

lemma rewriteCsvRows_rows:
  "map fst (rewriteCsvRows m (header # rest)) = header # map (\<lambda>r. fst (rewriteCsvRow m r)) rest"
  by (simp add: rewriteCsvRows_def comp_def)

lemma rewriteCsvRows_length: "length (rewriteCsvRows m rows) = length rows"
  by (cases rows) (simp_all add: rewriteCsvRows_def)

lemma rewriteCsvRows_nth:
  assumes "i < length rows"
  shows "rewriteCsvRows m rows ! i = (if i = 0 then (rows ! 0, False) else rewriteCsvRow m (rows ! i))"
  using assms by (cases rows; cases i) (simp_all add: rewriteCsvRows_def)

lemma rewriteCsvRows_changed:
  "list_ex snd (rewriteCsvRows m rows)
     \<longleftrightarrow> (\<exists>i. 0 < i \<and> i < length rows \<and> snd (rewriteCsvRow m (rows ! i)))"
proof -
  have "list_ex snd (rewriteCsvRows m rows)
      \<longleftrightarrow> (\<exists>i<length (rewriteCsvRows m rows). snd (rewriteCsvRows m rows ! i))"
    unfolding list_ex_iff by (metis in_set_conv_nth)
  also have "\<dots> \<longleftrightarrow> (\<exists>i. 0 < i \<and> i < length rows \<and> snd (rewriteCsvRow m (rows ! i)))"
    unfolding rewriteCsvRows_length
    by (rule iffI; elim exE conjE; rule_tac x=i in exI) (auto simp: rewriteCsvRows_nth split: if_splits)
  finally show ?thesis .
qed

lemma suffix_single: "suffix [c] s \<longleftrightarrow> s \<noteq> [] \<and> last s = c"
  by (cases s rule: rev_cases) (auto simp: suffix_def)

lemma rewriteCsvRows_last:
  assumes "2 \<le> length rows"
  shows "last (map fst (rewriteCsvRows m rows)) = fst (rewriteCsvRow m (last rows))"
proof -
  obtain h rest where rows: "rows = h # rest" "rest \<noteq> []"
    using assms by (cases rows; cases "tl rows") auto
  show ?thesis unfolding rows(1) rewriteCsvRows_rows using rows(2) by (simp add: last_map)
qed

lemma joinWith_last_row:
  assumes "2 \<le> length rs"
  shows "joinWith nl rs = joinWith nl (butlast rs) @ nl @ last rs"
proof -
  have "rs = butlast rs @ [last rs]" "butlast rs \<noteq> []"
    using assms by (cases rs rule: rev_cases; cases "butlast rs"; auto)+
  then show ?thesis using joinWith_snoc[of "butlast rs" nl "last rs"] by simp
qed

lemma applySpeakerNamesToCsv_eq:
  fixes original :: string and m :: replacements
  defines "nl \<equiv> (if sublist [CR, LF] original then [CR, LF] else [LF])"
  defines "upd \<equiv> rewriteCsvRows m (splitLines original)"
  shows "applySpeakerNamesToCsv m (Some original) =
           (if list_ex snd upd then (True, Some (joinWith nl (map fst upd)))
            else (False, Some original))"
proof (cases "list_ex snd upd")
  case False
  then show ?thesis by (simp add: applySpeakerNamesToCsv_def Let_def upd_def)
next
  case True
  have "suffix nl (joinWith nl (map fst upd))"
    if had: "suffix [CR, LF] original \<or> suffix [LF] original"
  proof -
    have ne: "original \<noteq> []" and lst: "last original = LF"
      using had by (auto simp: suffix_def)
    have len: "2 \<le> length (splitLines original)" using ne lst by (rule splitLines_length_LF)
    have "last (splitLines original) = []" using ne lst by (simp add: splitLines_last)
    then have l: "last (map fst upd) = []"
      unfolding upd_def rewriteCsvRows_last[OF len] by (simp add: rewriteCsvRow_Nil)
    have "2 \<le> length (map fst upd)" using len by (simp add: upd_def rewriteCsvRows_length)
    from joinWith_last_row[OF this, of nl] l show ?thesis by (simp add: suffix_def)
  qed
  then show ?thesis using True
    by (auto simp: applySpeakerNamesToCsv_def Let_def upd_def nl_def)
qed

lemma rewriteCsvRows_ne: "rows \<noteq> [] \<Longrightarrow> map fst (rewriteCsvRows m rows) \<noteq> []"
  by (cases rows) (simp_all add: rewriteCsvRows_def)

lemma rewriteCsvRows_noLF:
  assumes "\<forall>r\<in>set rows. LF \<notin> set r" "\<forall>name\<in>snd ` set m. LF \<notin> set name"
  shows "\<forall>r\<in>set (map fst (rewriteCsvRows m rows)). LF \<notin> set r"
proof (cases rows)
  case Nil
  then show ?thesis by (simp add: rewriteCsvRows_def)
next
  case (Cons h rest)
  show ?thesis
    unfolding Cons rewriteCsvRows_rows
    using assms(1) rewriteCsvRow_noLF[OF _ assms(2)] by (auto simp: Cons)
qed

lemma rewriteCsvRows_no_CR_end:
  assumes "\<forall>r\<in>set (butlast rows). r = [] \<or> last r \<noteq> CR"
  shows "\<forall>r\<in>set (butlast (map fst (rewriteCsvRows m rows))). r = [] \<or> last r \<noteq> CR"
proof (cases rows)
  case Nil
  then show ?thesis by (simp add: rewriteCsvRows_def)
next
  case (Cons h rest)
  have keep: "fst (rewriteCsvRow m r) = [] \<or> last (fst (rewriteCsvRow m r)) \<noteq> CR"
    if "r = [] \<or> last r \<noteq> CR" for r
    using that rewriteCsvRow_last[of r m] by (cases "r = []") (auto simp: rewriteCsvRow_Nil)
  show ?thesis
  proof (cases "rest = []")
    case True
    then show ?thesis unfolding Cons rewriteCsvRows_rows by simp
  next
    case False
    have b: "butlast (h # map (\<lambda>r. fst (rewriteCsvRow m r)) rest)
        = h # map (\<lambda>r. fst (rewriteCsvRow m r)) (butlast rest)"
      using False by (simp add: map_butlast)
    have "h = [] \<or> last h \<noteq> CR" and "\<forall>r\<in>set (butlast rest). r = [] \<or> last r \<noteq> CR"
      using assms False by (simp_all add: Cons)
    then show ?thesis unfolding Cons rewriteCsvRows_rows b using keep by auto
  qed
qed

lemma csv_written_rows:
  fixes original :: string and m :: replacements
  defines "nl \<equiv> (if sublist [CR, LF] original then [CR, LF] else [LF])"
  defines "rows' \<equiv> map fst (rewriteCsvRows m (splitLines original))"
  assumes names: "\<forall>name\<in>snd ` set m. LF \<notin> set name"
  shows "splitLines (joinWith nl rows') = rows'"
    and "lineBreaks (joinWith nl rows') = replicate (length (splitLines original) - 1) nl"
proof -
  have ne: "rows' \<noteq> []" unfolding rows'_def using splitLines_ne by (rule rewriteCsvRows_ne)
  have nolf: "\<forall>r\<in>set rows'. LF \<notin> set r"
    unfolding rows'_def using splitLines_noLF names by (intro rewriteCsvRows_noLF) auto
  have sep: "nl = [CR, LF] \<or> (nl = [LF] \<and> (\<forall>r\<in>set (butlast rows'). r = [] \<or> last r \<noteq> CR))"
  proof (cases "sublist [CR, LF] original")
    case True
    then show ?thesis by (simp add: nl_def)
  next
    case False
    then have "\<forall>r\<in>set (butlast (splitLines original)). r = [] \<or> last r \<noteq> CR"
      using splitLines_no_CR_end by blast
    then have "\<forall>r\<in>set (butlast rows'). r = [] \<or> last r \<noteq> CR"
      unfolding rows'_def by (rule rewriteCsvRows_no_CR_end)
    then show ?thesis using False by (simp add: nl_def)
  qed
  show "splitLines (joinWith nl rows') = rows'"
    using ne nolf sep by (rule splitLines_joinWith)
  have "lineBreaks (joinWith nl rows') = replicate (length rows' - 1) nl"
    using nolf sep by (rule lineBreaks_joinWith)
  then show "lineBreaks (joinWith nl rows') = replicate (length (splitLines original) - 1) nl"
    by (simp add: rows'_def rewriteCsvRows_length)
qed

lemma csv_trailing_newline:
  fixes original :: string and m :: replacements
  defines "nl \<equiv> (if sublist [CR, LF] original then [CR, LF] else [LF])"
  defines "rows' \<equiv> map fst (rewriteCsvRows m (splitLines original))"
  assumes changed: "list_ex snd (rewriteCsvRows m (splitLines original))"
  shows "suffix [LF] (joinWith nl rows') \<longleftrightarrow> suffix [LF] original"
proof -
  let ?rows = "splitLines original"
  have len: "2 \<le> length ?rows"
  proof -
    obtain i where "0 < i" "i < length ?rows"
      using changed unfolding rewriteCsvRows_changed by blast
    then show ?thesis by simp
  qed
  then have len': "2 \<le> length rows'" by (simp add: rows'_def rewriteCsvRows_length)
  have last': "last rows' = fst (rewriteCsvRow m (last ?rows))"
    unfolding rows'_def using len by (rule rewriteCsvRows_last)
  have nlne: "nl \<noteq> []" and nllast: "last nl = LF" by (simp_all add: nl_def)
  have j: "joinWith nl rows' = joinWith nl (butlast rows') @ nl @ last rows'"
    using len' by (rule joinWith_last_row)
  have ne: "original \<noteq> []" using len by (cases original) auto
  show ?thesis
  proof (cases "last ?rows = []")
    case True
    then have "last original = LF" using ne by (simp add: splitLines_last)
    moreover have "last rows' = []" using True last' by (simp add: rewriteCsvRow_Nil)
    ultimately show ?thesis using j nlne nllast ne by (simp add: suffix_single)
  next
    case False
    then have lo: "last original \<noteq> LF" using ne by (simp add: splitLines_last)
    have "last ?rows \<in> set ?rows" using splitLines_ne by simp
    then have "LF \<notin> set (last ?rows)" by (rule splitLines_noLF)
    then have "last (last ?rows) \<noteq> LF" using False last_in_set by metis
    then have "last rows' \<noteq> []" "last (last rows') \<noteq> LF"
      using rewriteCsvRow_last[OF False, of m] last' by simp_all
    then show ?thesis using j lo by (simp add: suffix_single)
  qed
qed

lemma mixed_csv_rewritten: "applySpeakerNamesToCsv [(''Speaker 1'', ''Alice'')] (Some mixed_csv) = (True, Some mixed_csv_out)"
  by (simp add: applySpeakerNamesToCsv_def mixed_csv_def mixed_csv_out_def rewriteCsvRows_def rewriteCsvRow_def
      trim_defs Let_def sublist_Cons_right suffix_def)

lemma mixed_csv_breaks: "lineBreaks mixed_csv = [[LF], [LF], [CR, LF]]" "lineBreaks mixed_csv_out = [[CR, LF], [CR, LF], [CR, LF]]"
  by (simp_all add: mixed_csv_def mixed_csv_out_def)

text \<open>
  C6, as amended. The rewriter returns every row of the file in its place and never
  rewrites row 0. A later row whose text before the first comma is a label, between
  white space that the field may start and end with, and whose label has a display name
  that is not empty, becomes the same row with the name in place of the label, the white
  space and the rest of the row kept; it counts as changed when the name differs from
  the label. A row with no comma, a blank row, and a row whose trimmed field has no
  display name or an empty one, are returned as they are. When no row changed the file
  is left untouched and the result is \<open>false\<close>. Otherwise the file is the rows joined by
  one separator, a carriage return and a line feed when the original holds that pair
  anywhere and a line feed alone otherwise; it ends with a line feed exactly when the
  original did; and, when no display name holds a line feed, its rows are the rows
  returned and every line break of it is that separator.
\<close>

theorem csv_rewrite:
  fixes m :: replacements and original :: string
  defines "rows \<equiv> splitLines original"
    and "upd \<equiv> rewriteCsvRows m (splitLines original)"
    and "nl \<equiv> (if sublist [CR, LF] original then [CR, LF] else [LF])"
  shows
   "length upd = length rows \<and> upd ! 0 = (rows ! 0, False)
    \<and> (0 < i \<and> i < length rows \<longrightarrow> upd ! i = rewriteCsvRow m (rows ! i))
    \<and> ((\<forall>c\<in>set lead. js_space c) \<and> (\<forall>c\<in>set trail. js_space c) \<and> label \<noteq> []
         \<and> \<not> js_space (hd label) \<and> \<not> js_space (last label) \<and> CHR '','' \<notin> set label
         \<and> map_of m label = Some name \<and> name \<noteq> []
         \<longrightarrow> rewriteCsvRow m (lead @ label @ trail @ CHR '','' # rest)
               = (lead @ name @ trail @ CHR '','' # rest, name \<noteq> label))
    \<and> ((CHR '','' \<notin> set row \<or> trim row = []
          \<or> map_of m (trim (takeWhile (\<lambda>c. c \<noteq> CHR '','') row)) \<in> {None, Some []})
         \<longrightarrow> rewriteCsvRow m row = (row, False))
    \<and> applySpeakerNamesToCsv m (Some original) =
          (if list_ex snd upd then (True, Some (joinWith nl (map fst upd)))
           else (False, Some original))
    \<and> (list_ex snd upd \<longrightarrow>
          (suffix [LF] (joinWith nl (map fst upd)) \<longleftrightarrow> suffix [LF] original))
    \<and> (list_ex snd upd \<and> (\<forall>name\<in>snd ` set m. LF \<notin> set name) \<longrightarrow>
          splitLines (joinWith nl (map fst upd)) = map fst upd
          \<and> lineBreaks (joinWith nl (map fst upd)) = replicate (length rows - 1) nl)"
proof (intro conjI impI)
  show "length upd = length rows" by (simp add: upd_def rows_def rewriteCsvRows_length)
  have "0 < length rows" using splitLines_ne[of original] by (simp add: rows_def)
  then show "upd ! 0 = (rows ! 0, False)"
    unfolding upd_def rows_def by (simp add: rewriteCsvRows_nth)
  show "upd ! i = rewriteCsvRow m (rows ! i)" if "0 < i \<and> i < length rows"
    using that unfolding upd_def rows_def by (simp add: rewriteCsvRows_nth)
  show "rewriteCsvRow m (lead @ label @ trail @ CHR '','' # rest)
               = (lead @ name @ trail @ CHR '','' # rest, name \<noteq> label)"
    if "(\<forall>c\<in>set lead. js_space c) \<and> (\<forall>c\<in>set trail. js_space c) \<and> label \<noteq> []
         \<and> \<not> js_space (hd label) \<and> \<not> js_space (last label) \<and> CHR '','' \<notin> set label
         \<and> map_of m label = Some name \<and> name \<noteq> []"
    using that by (intro rewriteCsvRow_label) simp_all
  show "rewriteCsvRow m row = (row, False)"
    if "CHR '','' \<notin> set row \<or> trim row = []
          \<or> map_of m (trim (takeWhile (\<lambda>c. c \<noteq> CHR '','') row)) \<in> {None, Some []}"
    using that by (rule rewriteCsvRow_unchanged)
  show "applySpeakerNamesToCsv m (Some original) =
          (if list_ex snd upd then (True, Some (joinWith nl (map fst upd)))
           else (False, Some original))"
    unfolding upd_def nl_def by (rule applySpeakerNamesToCsv_eq)
  show "suffix [LF] (joinWith nl (map fst upd)) \<longleftrightarrow> suffix [LF] original" if "list_ex snd upd"
    using that unfolding upd_def nl_def by (rule csv_trailing_newline)
  assume a: "list_ex snd upd \<and> (\<forall>name\<in>snd ` set m. LF \<notin> set name)"
  then have names: "\<forall>name\<in>snd ` set m. LF \<notin> set name" by simp
  show "splitLines (joinWith nl (map fst upd)) = map fst upd"
    unfolding upd_def nl_def using names by (rule csv_written_rows(1))
  show "lineBreaks (joinWith nl (map fst upd)) = replicate (length rows - 1) nl"
    unfolding upd_def nl_def rows_def using names by (rule csv_written_rows(2))
qed

lemma ex_csv_rows:
  "splitLines ex_csv = [''speaker,start,end,text'', ''Speaker 1, 0,1200,hello'', '' Speaker 2 ,1200,2000,hi'', []]"
  by (simp add: ex_csv_def)

theorem csv_rewrite_witness:
  "rewriteCsvRow [(''Speaker 1'', ''Alice''), (''Speaker 2'', ''Bob'')] (''Speaker 1'' @ CHR '','' # '' 0,1200,hello'')
      = (''Alice'' @ CHR '','' # '' 0,1200,hello'', True)
   \<and> rewriteCsvRow [(''Speaker 1'', ''Alice''), (''Speaker 2'', ''Bob'')] ('' '' @ ''Speaker 2'' @ '' '' @ CHR '','' # ''1200,2000,hi'')
      = ('' '' @ ''Bob'' @ '' '' @ CHR '','' # ''1200,2000,hi'', True)
   \<and> rewriteCsvRow [(''Speaker 1'', ''Alice''), (''Speaker 2'', ''Bob'')] ''no speaker here'' = (''no speaker here'', False)
   \<and> applySpeakerNamesToCsv [(''Speaker 1'', ''Alice''), (''Speaker 2'', ''Bob'')] (Some ex_csv) = (True, Some ex_csv_out)
   \<and> suffix [LF] ex_csv_out \<and> suffix [LF] ex_csv
   \<and> splitLines ex_csv_out = [''speaker,start,end,text'', ''Alice, 0,1200,hello'', '' Bob ,1200,2000,hi'', []]
   \<and> lineBreaks ex_csv_out = [[LF], [LF], [LF]]"
proof -
  let ?m = "[(''Speaker 1'', ''Alice''), (''Speaker 2'', ''Bob'')]"
  note t1 = csv_rewrite[where m="?m" and original=ex_csv and i=1 and lead="[]" and label="''Speaker 1''"
      and trail="[]" and name="''Alice''" and rest="'' 0,1200,hello''" and row="''no speaker here''"]
  note t2 = csv_rewrite[where m="?m" and original=ex_csv and i=2 and lead="'' ''" and label="''Speaker 2''"
      and trail="'' ''" and name="''Bob''" and rest="''1200,2000,hi''" and row="''no speaker here''"]
  note c2 = conjunct2
  note label1 = t1[THEN c2, THEN c2, THEN c2, THEN conjunct1]
  note label2 = t2[THEN c2, THEN c2, THEN c2, THEN conjunct1]
  note same = t1[THEN c2, THEN c2, THEN c2, THEN c2, THEN conjunct1]
  note app = t1[THEN c2, THEN c2, THEN c2, THEN c2, THEN c2, THEN conjunct1]
  note trailing = t1[THEN c2, THEN c2, THEN c2, THEN c2, THEN c2, THEN c2, THEN conjunct1]
  note written = t1[THEN c2, THEN c2, THEN c2, THEN c2, THEN c2, THEN c2, THEN c2]
  have sp: "js_space CHR '' ''" "\<not> js_space CHR ''S''" "\<not> js_space CHR ''1''" "\<not> js_space CHR ''2''"
    by (simp_all add: js_space_def)
  have a: "rewriteCsvRow ?m (''Speaker 1'' @ CHR '','' # '' 0,1200,hello'')
      = (''Alice'' @ CHR '','' # '' 0,1200,hello'', True)"
    using label1 sp by simp
  have b: "rewriteCsvRow ?m ('' '' @ ''Speaker 2'' @ '' '' @ CHR '','' # ''1200,2000,hi'')
      = ('' '' @ ''Bob'' @ '' '' @ CHR '','' # ''1200,2000,hi'', True)"
    using label2 sp by simp
  have c: "rewriteCsvRow ?m ''no speaker here'' = (''no speaker here'', False)"
    using same by simp
  have nosub: "\<not> sublist [CR, LF] ex_csv"
    by (simp add: ex_csv_def sublist_Cons_right)
  have upd: "rewriteCsvRows ?m (splitLines ex_csv) =
      [(''speaker,start,end,text'', False), (''Alice, 0,1200,hello'', True), ('' Bob ,1200,2000,hi'', True), ([], False)]"
    using a b by (simp add: ex_csv_rows rewriteCsvRows_def rewriteCsvRow_Nil)
  have j: "joinWith [LF] (map fst (rewriteCsvRows ?m (splitLines ex_csv))) = ex_csv_out"
    unfolding upd by (simp add: ex_csv_out_def)
  have ch: "list_ex snd (rewriteCsvRows ?m (splitLines ex_csv))" unfolding upd by simp
  have names: "\<forall>name\<in>snd ` set ?m. LF \<notin> set name" by simp
  have d: "applySpeakerNamesToCsv ?m (Some ex_csv) = (True, Some ex_csv_out)"
    using app ch nosub j by simp
  have e1: "suffix [LF] ex_csv" by (simp add: ex_csv_def suffix_def)
  have e: "suffix [LF] ex_csv_out" using trailing ch nosub j e1 by simp
  have w: "splitLines ex_csv_out = map fst (rewriteCsvRows ?m (splitLines ex_csv))
     \<and> lineBreaks ex_csv_out = replicate (length (splitLines ex_csv) - 1) [LF]"
    using written ch names nosub j by simp
  have f: "splitLines ex_csv_out = [''speaker,start,end,text'', ''Alice, 0,1200,hello'', '' Bob ,1200,2000,hi'', []]"
    using w unfolding upd by simp
  have g: "lineBreaks ex_csv_out = [[LF], [LF], [LF]]"
    using w unfolding ex_csv_rows by (simp add: numeral_3_eq_3)
  from a b c d e e1 f g show ?thesis by (intro conjI)
qed

text \<open>
  The claim as stated fails on a file whose line breaks are mixed: two of the three are
  line feeds alone, so that convention dominates, and the file written has three pairs
  of carriage return and line feed.
\<close>

theorem csv_rewrite_counterexample:
  "applySpeakerNamesToCsv [(''Speaker 1'', ''Alice'')] (Some mixed_csv) = (True, Some mixed_csv_out)
   \<and> lineBreaks mixed_csv = [[LF], [LF], [CR, LF]]
   \<and> lineBreaks mixed_csv_out = [[CR, LF], [CR, LF], [CR, LF]]"
  using mixed_csv_rewritten mixed_csv_breaks by (intro conjI)

subsection \<open>The text rewriter and a label with a dot\<close>

text \<open>
  Claim C3 (the plain-text rewriter matches the label as a literal string). The label
  \<open>Mr. X\<close> comes out of \<open>escapeRegExp\<close> as it went in, since the dot is followed by
  neither a backslash nor a closing bracket; the dot is then read as ``any character'',
  and with the map \<open>{"Mr. X": "Bob"}\<close> the content \<open>Mrs X: hello\<close>, which does not hold the
  label, is rewritten to \<open>Bob: hello\<close>.
\<close>

theorem replaceSpeakerPrefixes_dot_label:
  "escapeRegExp ''Mr. X'' = ''Mr. X''
   \<and> replaceSpeakerPrefixes ''Mrs X: hello'' [(''Mr. X'', ''Bob'')] = Some ''Bob: hello''
   \<and> applySpeakerNamesToTextFile [(''Mr. X'', ''Bob'')] (Some ''Mrs X: hello'')
       = Some (True, Some ''Bob: hello'')"
  by (simp add: applySpeakerNamesToTextFile_def escapeClass_def compileLabel_def regexSyntax_def
        replaceMatches.simps matchPattern_def matchLabelAfter_def lookaheadColon_def js_space_def)


subsection \<open>The text rewriter on plain labels\<close>



lemma lookaheadColon_Nil: "lookaheadColon [] = False"
  by (simp add: lookaheadColon_def)









lemma noCue_mono: "noCue label True s \<Longrightarrow> noCue label False s"
  by (cases s) simp_all













subsection \<open>The text and CSV rewriters run twice\<close>













subsection \<open>The structured rewriter run twice\<close>



































subsection \<open>Export-sync run twice\<close>















end
